theory Spec2Isabelle
  imports Main "HOL-Library.Multiset"
begin

section \<open>Alignment validity automaton (\<open>_is_aligned\<close> of \<open>mhc_filter_main\<close>)\<close>

text \<open>
  The source (src/main.py, lines 504-533) scans the reference \<open>target\<close> and the
  candidate \<open>seq\<close> with two indices \<open>i\<close>, \<open>j\<close> and an integer \<open>state\<close> that
  only ever holds 0, 1 or 2:
  \<^verbatim>\<open>
  def _is_aligned(target, seq):
    i, j = 0, 0
    state = 0
    while i < len(target) and j < len(seq):
      if seq[j].islower():
        return False
      if state == 0:
        if seq[j] == "-":            i, j = i + 1, j + 1
        elif target[i] == seq[j]:    i, j = i + 1, j + 1; state = 1
        else:                        return False
      elif state == 1:
        if seq[j] == "-":            i, j = i + 1, j + 1; state = 2
        elif target[i] == seq[j]:    i, j = i + 1, j + 1
        else:                        return False
      elif state == 2:
        if seq[j] != "-":            return False
        i, j = i + 1, j + 1
    return True
  \<close>
  Sequences are strings over the ASCII alignment alphabet, modelled as \<open>char list\<close>;
  \<open>str.islower\<close> of a one-character string is then the test for \<open>a\<close>..\<open>z\<close>.
  The three values of \<open>state\<close> are the constructors \<open>State0\<close>, \<open>State1\<close>,
  \<open>State2\<close>.
\<close>

datatype scan_state = State0 | State1 | State2

definition islower :: "char \<Rightarrow> bool" where
  "islower c = (97 \<le> (of_char c :: nat) \<and> (of_char c :: nat) \<le> 122)"

function is_aligned_loop :: "string \<Rightarrow> string \<Rightarrow> nat \<Rightarrow> nat \<Rightarrow> scan_state \<Rightarrow> bool" where
  "is_aligned_loop target seq i j state =
     (if i < length target \<and> j < length seq then
        (if islower (seq ! j) then False
         else (case state of
           State0 \<Rightarrow>
             (if seq ! j = CHR ''-'' then is_aligned_loop target seq (i + 1) (j + 1) state
              else if target ! i = seq ! j then is_aligned_loop target seq (i + 1) (j + 1) State1
              else False)
         | State1 \<Rightarrow>
             (if seq ! j = CHR ''-'' then is_aligned_loop target seq (i + 1) (j + 1) State2
              else if target ! i = seq ! j then is_aligned_loop target seq (i + 1) (j + 1) state
              else False)
         | State2 \<Rightarrow>
             (if seq ! j \<noteq> CHR ''-'' then False
              else is_aligned_loop target seq (i + 1) (j + 1) state)))
      else True)"
  by pat_completeness auto
termination
  by (relation "measure (\<lambda>(target, seq, i, j, state). length target - i)") auto

declare is_aligned_loop.simps [simp del]

definition is_aligned :: "string \<Rightarrow> string \<Rightarrow> bool" where
  "is_aligned target seq = is_aligned_loop target seq 0 0 State0"

text \<open>
  The two indices advance together, so the loop is a left-to-right pass over the
  columns \<open>zip target seq\<close>. \<open>scan_pairs\<close> is that pass; it is used in proofs only
  and is shown equal to the loop below.
\<close>

fun scan_pairs :: "(char \<times> char) list \<Rightarrow> scan_state \<Rightarrow> bool" where
  "scan_pairs [] state = True"
| "scan_pairs ((t, c) # ps) state =
     (if islower c then False
      else (case state of
        State0 \<Rightarrow> (if c = CHR ''-'' then scan_pairs ps State0
                   else if t = c then scan_pairs ps State1 else False)
      | State1 \<Rightarrow> (if c = CHR ''-'' then scan_pairs ps State2
                   else if t = c then scan_pairs ps State1 else False)
      | State2 \<Rightarrow> (if c \<noteq> CHR ''-'' then False else scan_pairs ps State2)))"


section \<open>Python values: errors, strings, dictionaries\<close>

text \<open>
  Every exception the modelled code can raise is a value of \<open>error\<close>; a function
  that can raise returns \<open>error + 'a\<close>, with \<open>Inl\<close> the exception.
\<close>

datatype error = IndexError | ValueError | TypeError | AssertionError | FileNotFoundError

text \<open>
  \<open>str.isspace\<close> on ASCII, \<open>str.strip()\<close>, \<open>str.split()\<close> (maximal runs of
  non-whitespace, no empty token) and \<open>sep.join(xs)\<close>.
\<close>

definition isspace :: "char \<Rightarrow> bool" where
  "isspace c = (let n = (of_char c :: nat) in (9 \<le> n \<and> n \<le> 13) \<or> (28 \<le> n \<and> n \<le> 32))"

definition strip :: "string \<Rightarrow> string" where
  "strip s = rev (dropWhile isspace (rev (dropWhile isspace s)))"

fun split_from :: "string \<Rightarrow> string \<Rightarrow> string list" where
  "split_from cur [] = (if cur = [] then [] else [cur])"
| "split_from cur (c # cs) =
     (if isspace c then (if cur = [] then split_from [] cs else cur # split_from [] cs)
      else split_from (cur @ [c]) cs)"

definition split :: "string \<Rightarrow> string list" where
  "split s = split_from [] s"

fun join :: "string \<Rightarrow> string list \<Rightarrow> string" where
  "join sep [] = []"
| "join sep [x] = x"
| "join sep (x # y # ys) = x @ sep @ join sep (y # ys)"

text \<open>\<open>d.get(k, dflt)\<close> of a dictionary that is only ever looked up.\<close>

definition get_default :: "('k \<rightharpoonup> 'v) \<Rightarrow> 'k \<Rightarrow> 'v \<Rightarrow> 'v" where
  "get_default d k dflt = (case d k of None \<Rightarrow> dflt | Some v \<Rightarrow> v)"

text \<open>
  \<open>d[k].append(v)\<close> on a \<open>defaultdict(list)\<close>. The coverage accumulator is iterated
  (\<open>a3m_dict.items()\<close>), so it is an association list in insertion order: an existing
  key keeps its place, a new key goes to the end.
\<close>

fun dict_append :: "'k \<Rightarrow> 'v \<Rightarrow> ('k \<times> 'v list) list \<Rightarrow> ('k \<times> 'v list) list" where
  "dict_append k v [] = [(k, [v])]"
| "dict_append k v ((k', vs) # d) =
     (if k' = k then (k', vs @ [v]) # d else (k', vs) # dict_append k v d)"


section \<open>Index reader and alignment loader (\<open>read_mapping_idx\<close>, \<open>read_a3m\<close>)\<close>

text \<open>
  \<^verbatim>\<open>
  def read_mapping_idx(data_uri, mapping_dict=None):
    if mapping_dict is None: mapping_dict = {}
    mapping_idx_path = _db_uri_abs_path(data_uri, data_uri.mapping_idx)
    if os.path.exists(mapping_idx_path):
      with open(mapping_idx_path, "r") as f:
        for line in filter(lambda x: x, map(lambda x: x.strip(), f)):
          k, v = line.split()
          mapping_dict[v] = k
    return mapping_dict
  \<close>
  The file is its list of lines, \<open>None\<close> when the path does not exist. A line that does
  not split into exactly two fields raises \<open>ValueError\<close> at the unpacking.
\<close>

fun read_mapping_lines ::
  "string list \<Rightarrow> (string \<rightharpoonup> string) \<Rightarrow> error + (string \<rightharpoonup> string)" where
  "read_mapping_lines [] mapping_dict = Inr mapping_dict"
| "read_mapping_lines (line # lines) mapping_dict =
     (case split line of
        [k, v] \<Rightarrow> read_mapping_lines lines (mapping_dict(v \<mapsto> k))
      | _ \<Rightarrow> Inl ValueError)"

definition stripped_lines :: "string list \<Rightarrow> string list" where
  "stripped_lines f = filter (\<lambda>x. x \<noteq> []) (map strip f)"

definition read_mapping_idx ::
  "string list option \<Rightarrow> (string \<rightharpoonup> string) \<Rightarrow> error + (string \<rightharpoonup> string)" where
  "read_mapping_idx file mapping_dict =
     (case file of
        None \<Rightarrow> Inr mapping_dict
      | Some f \<Rightarrow> read_mapping_lines (stripped_lines f) mapping_dict)"

text \<open>
  \<^verbatim>\<open>
  def read_a3m(data_uri, mapping_idx, pdb_id):
    pdb_id = mapping_idx.get(pdb_id, pdb_id)
    a3m_path = os.path.join(..., pdb_id, "msas", f"{pdb_id}.a3m")
    with open(a3m_path, "r") as f: a3m_string = f.read()
    sequences, descriptions = parse_fasta(a3m_string)
    return sequences, descriptions
  \<close>
  The alignment directory is a map from the resolved identifier to the parsed block
  (sequences, descriptions); \<open>parse_fasta\<close> is the external parser. A missing file is
  \<open>FileNotFoundError\<close>.
\<close>

type_synonym a3m_data = "string list \<times> string list"

definition read_a3m ::
  "(string \<rightharpoonup> a3m_data) \<Rightarrow> (string \<rightharpoonup> string) \<Rightarrow> string \<Rightarrow> error + a3m_data" where
  "read_a3m data_uri mapping_idx pdb_id =
     (let pdb_id = get_default mapping_idx pdb_id pdb_id in
      case data_uri pdb_id of
        None \<Rightarrow> Inl FileNotFoundError
      | Some a3m \<Rightarrow> Inr a3m)"


section \<open>Complex hit indexer (\<open>align_a3m\<close>)\<close>

text \<open>
  The identifier codec (\<open>decompose_pid\<close>, \<open>seq_index_split\<close>, \<open>seq_index_join\<close>) is
  imported from the library \<open>profold2\<close> and is a parameter of the model.
  \<open>decompose_pid cd x\<close> is the triple \<open>decompose_pid(x, return_domain=True)\<close>; the
  two-component call \<open>decompose_pid(x)\<close> is its first two components (\<open>pid_of\<close>,
  \<open>chain_of\<close>).
\<close>

record codec =
  decompose_pid :: "string \<Rightarrow> string \<times> string option \<times> string option"
  seq_index_split :: "string \<Rightarrow> (int \<times> int) list"
  seq_index_join :: "(int \<times> int) list \<Rightarrow> string"

definition pid_of :: "codec \<Rightarrow> string \<Rightarrow> string" where
  "pid_of cd pdb_id = fst (decompose_pid cd pdb_id)"

definition chain_of :: "codec \<Rightarrow> string \<Rightarrow> string option" where
  "chain_of cd pdb_id = fst (snd (decompose_pid cd pdb_id))"

text \<open>
  An alignment record is the tuple \<open>(domains, seq, desc, kwargs)\<close>; \<open>kwargs\<close> only
  ever holds \<open>target_chain\<close>, which is the last component. The record store is only
  looked up by key; the coverage accumulator maps a base id to the list of chain labels
  (a label is \<open>None\<close> when the identifier has no chain).
\<close>

type_synonym align_record = "(int \<times> int) list \<times> string \<times> string \<times> string"
type_synonym align_data_dict = "string \<rightharpoonup> align_record"
type_synonym align_chain_dict = "(string \<times> string option list) list"

text \<open>\<open>f"{pid}_{chain}" if chain else pid\<close>: \<open>None\<close> and the empty string are falsy.\<close>

definition compose_id :: "string \<Rightarrow> string option \<Rightarrow> string" where
  "compose_id pid chain =
     (case chain of
        None \<Rightarrow> pid
      | Some c \<Rightarrow> if c \<noteq> [] then pid @ ''_'' @ c else pid)"

text \<open>\<open>list(seq_index_split(domains)) if domains else []\<close>.\<close>

definition row_domains :: "codec \<Rightarrow> string option \<Rightarrow> (int \<times> int) list" where
  "row_domains cd domains =
     (case domains of
        None \<Rightarrow> []
      | Some d \<Rightarrow> if d \<noteq> [] then seq_index_split cd d else [])"

text \<open>
  \<^verbatim>\<open>
  def align_a3m(a3m_data, mapping_dict, align_dict, **kwargs):
    a3m_seqs, a3m_descs = a3m_data
    align_data_dict, align_chain_dict = align_dict
    for seq, desc in zip(a3m_seqs[1:], a3m_descs[1:]):
      pid, chain, domains = decompose_pid(desc.split()[0], return_domain=True)
      if domains: domains = list(seq_index_split(domains))
      else:       domains = []
      pdb_id = f"{pid}_{chain}" if chain else pid
      align_data_dict[pdb_id] = (domains, seq, desc, kwargs)
      pdb_id_list = set([pdb_id]) | set(mapping_dict.get(pdb_id, []))
      for pdb_id in pdb_id_list:
        pid, chain = decompose_pid(pdb_id)
        align_chain_dict[pid].append(chain)
    return align_data_dict, align_chain_dict
  \<close>
  \<open>credit\<close> is the body of the inner loop, \<open>align_a3m_row\<close> the body of the outer
  one. The inner loop runs over a Python set: every identifier once, in an order Python
  does not fix. The model visits them in the order of \<open>remdups\<close>; the properties proved
  below do not depend on that order.
\<close>

definition credit :: "codec \<Rightarrow> align_chain_dict \<Rightarrow> string \<Rightarrow> align_chain_dict" where
  "credit cd align_chain_dict pdb_id =
     dict_append (pid_of cd pdb_id) (chain_of cd pdb_id) align_chain_dict"

definition align_a3m_row ::
  "codec \<Rightarrow> (string \<rightharpoonup> string list) \<Rightarrow> string \<Rightarrow> align_data_dict \<times> align_chain_dict \<Rightarrow>
   string \<times> string \<Rightarrow> error + (align_data_dict \<times> align_chain_dict)" where
  "align_a3m_row cd mapping_dict target_chain align_dict row =
     (case (align_dict, row) of ((align_data_dict, align_chain_dict), (seq, desc)) \<Rightarrow>
        (case split desc of
           [] \<Rightarrow> Inl IndexError
         | tok # _ \<Rightarrow>
             (case decompose_pid cd tok of (pid, chain, domains) \<Rightarrow>
                let domains = row_domains cd domains;
                    pdb_id = compose_id pid chain;
                    pdb_id_list = remdups (pdb_id # get_default mapping_dict pdb_id [])
                in Inr (align_data_dict(pdb_id \<mapsto> (domains, seq, desc, target_chain)),
                        foldl (credit cd) align_chain_dict pdb_id_list))))"

fun align_a3m_rows ::
  "codec \<Rightarrow> (string \<rightharpoonup> string list) \<Rightarrow> string \<Rightarrow> (string \<times> string) list \<Rightarrow>
   align_data_dict \<times> align_chain_dict \<Rightarrow> error + (align_data_dict \<times> align_chain_dict)" where
  "align_a3m_rows cd mapping_dict target_chain [] align_dict = Inr align_dict"
| "align_a3m_rows cd mapping_dict target_chain (row # rows) align_dict =
     (case align_a3m_row cd mapping_dict target_chain align_dict row of
        Inl e \<Rightarrow> Inl e
      | Inr align_dict' \<Rightarrow> align_a3m_rows cd mapping_dict target_chain rows align_dict')"

definition align_a3m ::
  "codec \<Rightarrow> a3m_data \<Rightarrow> (string \<rightharpoonup> string list) \<Rightarrow> align_data_dict \<times> align_chain_dict \<Rightarrow>
   string \<Rightarrow> error + (align_data_dict \<times> align_chain_dict)" where
  "align_a3m cd a3m_data mapping_dict align_dict target_chain =
     (case a3m_data of (a3m_seqs, a3m_descs) \<Rightarrow>
        align_a3m_rows cd mapping_dict target_chain (zip (drop 1 a3m_seqs) (drop 1 a3m_descs))
          align_dict)"

text \<open>
  Reading a header the way lines 187-193 do, for stating properties of the whole loop:
  the composite key \<open>pdb_id\<close> under which the row is registered and the domain list
  of its record; \<open>None\<close> when the header has no token (\<open>desc.split()[0]\<close> raises).
\<close>

definition header_id :: "codec \<Rightarrow> string \<Rightarrow> string option" where
  "header_id cd desc =
     (case split desc of
        [] \<Rightarrow> None
      | tok # _ \<Rightarrow>
          (case decompose_pid cd tok of (pid, chain, domains) \<Rightarrow> Some (compose_id pid chain)))"

definition header_domains :: "codec \<Rightarrow> string \<Rightarrow> (int \<times> int) list" where
  "header_domains cd desc =
     (case split desc of
        [] \<Rightarrow> []
      | tok # _ \<Rightarrow>
          (case decompose_pid cd tok of (pid, chain, domains) \<Rightarrow> row_domains cd domains))"

text \<open>Reading the accumulator at a base id: the list of labels, empty when absent.\<close>

definition coverage :: "align_chain_dict \<Rightarrow> string \<Rightarrow> string option list" where
  "coverage align_chain_dict pid = get_default (map_of align_chain_dict) pid []"


section \<open>Complex assembler (\<open>align_complex\<close>)\<close>

text \<open>
  The shared object holds the four database indices; \<open>align_complex\<close> only reads them.
  An attribute blob is kept as the text that the header formats it to.
\<close>

record shared_obj =
  db_attr_idx :: "string \<rightharpoonup> string"
  db_chain_idx :: "string \<rightharpoonup> string list"
  db_mapping_idx :: "string \<rightharpoonup> string"
  db_mapping_dict :: "string \<rightharpoonup> string list"

text \<open>\<open>_seq_at_i\<close>: \<open>seqs[i], descs[i]\<close>, an \<open>IndexError\<close> when either is too short.\<close>

definition seq_at_i :: "a3m_data \<Rightarrow> nat \<Rightarrow> error + (string \<times> string)" where
  "seq_at_i a3m_data i =
     (case a3m_data of (seqs, descs) \<Rightarrow>
        if i < length seqs \<and> i < length descs then Inr (seqs ! i, descs ! i)
        else Inl IndexError)"

text \<open>
  Lines 218-228: every target chain's block is read and folded through \<open>align_a3m\<close>,
  tagged with that chain; \<open>a3m_list\<close> collects the blocks in chain order.
\<close>

fun read_a3m_dict ::
  "codec \<Rightarrow> shared_obj \<Rightarrow> (string \<rightharpoonup> a3m_data) \<Rightarrow> (string \<rightharpoonup> string) \<Rightarrow> string \<Rightarrow>
   string list \<Rightarrow> a3m_data list \<times> (align_data_dict \<times> align_chain_dict) \<Rightarrow>
   error + (a3m_data list \<times> (align_data_dict \<times> align_chain_dict))" where
  "read_a3m_dict cd shared target_uri target_mapping_idx target_pid [] acc = Inr acc"
| "read_a3m_dict cd shared target_uri target_mapping_idx target_pid (chain # rest)
     (a3m_list, a3m_dict) =
     (case read_a3m target_uri target_mapping_idx (compose_id target_pid (Some chain)) of
        Inl e \<Rightarrow> Inl e
      | Inr a3m_data \<Rightarrow>
          (case align_a3m cd a3m_data (db_mapping_dict shared) a3m_dict chain of
             Inl e \<Rightarrow> Inl e
           | Inr a3m_dict' \<Rightarrow>
               read_a3m_dict cd shared target_uri target_mapping_idx target_pid rest
                 (a3m_list @ [a3m_data], a3m_dict')))"

text \<open>
  Lines 230-238, the inner \<open>_is_aligned(pid, chain_list)\<close> of \<open>align_complex\<close> (named
  \<open>is_aligned_pid\<close> here, the name \<open>is_aligned\<close> being the automaton's) and the
  dictionary comprehension that keeps the complete hits.
\<close>

definition is_aligned_pid :: "shared_obj \<Rightarrow> string \<Rightarrow> string option list \<Rightarrow> bool" where
  "is_aligned_pid shared pid chain_list =
     (if db_attr_idx shared pid \<noteq> None then
        (case db_chain_idx shared pid of
           None \<Rightarrow> False
         | Some cl \<Rightarrow> length cl = length chain_list)
      else False)"

definition new_a3m_dict :: "shared_obj \<Rightarrow> align_chain_dict \<Rightarrow> align_chain_dict" where
  "new_a3m_dict shared a3m_dict = filter (\<lambda>(k, v). is_aligned_pid shared k v) a3m_dict"

text \<open>
  Lines 244-251, the target row. The loop runs over the target chains and takes the
  query (row 0) of the block at the same index, so it runs over
  \<open>zip target_chain_list a3m_list\<close>.
\<close>

fun add_target ::
  "(string \<times> a3m_data) list \<Rightarrow> string \<Rightarrow> (int \<times> int) list \<Rightarrow> int \<Rightarrow>
   error + (string \<times> (int \<times> int) list)" where
  "add_target [] target_seq domains n = Inr (target_seq, domains)"
| "add_target ((chain, a3m_data) # rest) target_seq domains n =
     (case seq_at_i a3m_data 0 of
        Inl e \<Rightarrow> Inl e
      | Inr (seq, _) \<Rightarrow>
          add_target rest (target_seq @ seq) (domains @ [(n, n + int (length seq) - 1)])
            (n + int (length seq) + 100))"

text \<open>The query of a block, for stating properties: row 0 of its sequences.\<close>

definition query_seq :: "a3m_data \<Rightarrow> string" where
  "query_seq a3m_data = (case fst a3m_data of [] \<Rightarrow> [] | seq # _ \<Rightarrow> seq)"

text \<open>
  Lines 257-258 and 282-283. \<open>_repl\<close> turns a match into as many \<open>*\<close>;
  \<open>re.sub("^[-]+", _repl, s)\<close> rewrites the run of \<open>-\<close> that starts the string;
  \<open>re.sub("[-]+$", _repl, s)\<close> rewrites the run of \<open>-\<close> that ends where \<open>$\<close>
  matches: at the end of the string, or before a line feed that is its last character.
\<close>

definition repl :: "string \<Rightarrow> string" where
  "repl m = replicate (length m) CHR ''*''"

definition sub_leading_gaps :: "string \<Rightarrow> string" where
  "sub_leading_gaps s =
     repl (takeWhile (\<lambda>c. c = CHR ''-'') s) @ dropWhile (\<lambda>c. c = CHR ''-'') s"

definition sub_gaps_at_end :: "string \<Rightarrow> string" where
  "sub_gaps_at_end s =
     rev (dropWhile (\<lambda>c. c = CHR ''-'') (rev s)) @ repl (takeWhile (\<lambda>c. c = CHR ''-'') (rev s))"

definition sub_trailing_gaps :: "string \<Rightarrow> string" where
  "sub_trailing_gaps s =
     (if s \<noteq> [] \<and> last s = CHR 0x0A then sub_gaps_at_end (butlast s) @ [CHR 0x0A]
      else sub_gaps_at_end s)"

definition mask_end_gaps :: "string \<Rightarrow> string" where
  "mask_end_gaps hit_seq = sub_trailing_gaps (sub_leading_gaps hit_seq)"

text \<open>
  Line 262, \<open>','.join(c for c, *_ in chain_list)\<close>: unpacking a label takes its first
  character, and raises \<open>TypeError\<close> on \<open>None\<close> and \<open>ValueError\<close> on the empty
  string. Lines 262-264 build the header of a hit.
\<close>

fun chain_initials :: "string option list \<Rightarrow> error + string list" where
  "chain_initials [] = Inr []"
| "chain_initials (None # chain_list) = Inl TypeError"
| "chain_initials (Some [] # chain_list) = Inl ValueError"
| "chain_initials (Some (c # rest) # chain_list) =
     (case chain_initials chain_list of
        Inl e \<Rightarrow> Inl e
      | Inr cs \<Rightarrow> Inr ([c] # cs))"

definition hit_desc :: "shared_obj \<Rightarrow> string \<Rightarrow> string option list \<Rightarrow> error + string" where
  "hit_desc shared pid chain_list =
     (case chain_initials chain_list of
        Inl e \<Rightarrow> Inl e
      | Inr cs \<Rightarrow>
          let desc = ''>'' @ pid @ '' chains:'' @ join '','' cs
          in (case db_attr_idx shared pid of
                Some attr \<Rightarrow> Inr (desc @ '' '' @ attr)
              | None \<Rightarrow> Inr desc))"

text \<open>
  Lines 273-279, the record of one chain label of a hit: the identifier must be in the
  aliasing index (first assertion); the record is the one stored under the identifier,
  or else the one stored under its canonical identifier (second assertion).
\<close>

definition hit_record :: "shared_obj \<Rightarrow> align_data_dict \<Rightarrow> string \<Rightarrow> error + align_record" where
  "hit_record shared align_data_dict pdb_id =
     (case db_mapping_idx shared pdb_id of
        None \<Rightarrow> Inl AssertionError
      | Some canonical \<Rightarrow>
          (case align_data_dict pdb_id of
             Some r \<Rightarrow> Inr r
           | None \<Rightarrow>
               (case align_data_dict canonical of
                  None \<Rightarrow> Inl AssertionError
                | Some r \<Rightarrow> Inr r)))"

text \<open>The tag of a record: \<open>attrs["target_chain"]\<close>.\<close>

definition record_target_chain :: "align_record \<Rightarrow> string" where
  "record_target_chain r = (case r of (_, _, _, target_chain) \<Rightarrow> target_chain)"

text \<open>
  Lines 270-284, the contribution of one target chain to a hit's row: it starts as
  \<open>"*" * len(seq)\<close> (the argument \<open>placeholder\<close>) and the scan of the hit's labels
  stops at the first record tagged with the target chain.
\<close>

fun hit_seq_at_i ::
  "shared_obj \<Rightarrow> align_data_dict \<Rightarrow> string \<Rightarrow> string \<Rightarrow> string \<Rightarrow> string option list \<Rightarrow>
   error + string" where
  "hit_seq_at_i shared align_data_dict pid target_chain placeholder [] = Inr placeholder"
| "hit_seq_at_i shared align_data_dict pid target_chain placeholder (chain # chain_list) =
     (case hit_record shared align_data_dict (compose_id pid chain) of
        Inl e \<Rightarrow> Inl e
      | Inr (domains, hit_seq, desc, attrs) \<Rightarrow>
          if record_target_chain (domains, hit_seq, desc, attrs) = target_chain
          then Inr (mask_end_gaps hit_seq)
          else hit_seq_at_i shared align_data_dict pid target_chain placeholder chain_list)"

fun new_hit_seq ::
  "shared_obj \<Rightarrow> align_data_dict \<Rightarrow> string \<Rightarrow> string option list \<Rightarrow>
   (string \<times> a3m_data) list \<Rightarrow> error + string" where
  "new_hit_seq shared align_data_dict pid chain_list [] = Inr []"
| "new_hit_seq shared align_data_dict pid chain_list ((target_chain, a3m_data) # rest) =
     (case seq_at_i a3m_data 0 of
        Inl e \<Rightarrow> Inl e
      | Inr (seq, _) \<Rightarrow>
          (case hit_seq_at_i shared align_data_dict pid target_chain
                  (replicate (length seq) CHR ''*'') chain_list of
             Inl e \<Rightarrow> Inl e
           | Inr contribution \<Rightarrow>
               (case new_hit_seq shared align_data_dict pid chain_list rest of
                  Inl e \<Rightarrow> Inl e
                | Inr s \<Rightarrow> Inr (contribution @ s))))"

fun hit_rows ::
  "shared_obj \<Rightarrow> align_data_dict \<Rightarrow> (string \<times> a3m_data) list \<Rightarrow> align_chain_dict \<Rightarrow>
   error + string list" where
  "hit_rows shared align_data_dict targets [] = Inr []"
| "hit_rows shared align_data_dict targets ((pid, chain_list) # hits) =
     (case hit_desc shared pid chain_list of
        Inl e \<Rightarrow> Inl e
      | Inr desc \<Rightarrow>
          (case new_hit_seq shared align_data_dict pid chain_list targets of
             Inl e \<Rightarrow> Inl e
           | Inr s \<Rightarrow>
               (case hit_rows shared align_data_dict targets hits of
                  Inl e \<Rightarrow> Inl e
                | Inr rows \<Rightarrow> Inr (desc # s # rows))))"

text \<open>
  \<open>align_complex\<close> returns the item, the output rows (the target's header and
  sequence, then a header and a sequence per retained hit) and the raw coverage
  accumulator.
\<close>

definition align_complex ::
  "codec \<Rightarrow> shared_obj \<Rightarrow> (string \<rightharpoonup> a3m_data) \<Rightarrow> (string \<rightharpoonup> string) \<Rightarrow>
   string \<times> string list \<Rightarrow>
   error + ((string \<times> string list) \<times> string list \<times> align_chain_dict)" where
  "align_complex cd shared target_uri target_mapping_idx item =
     (case item of (target_pid, target_chain_list) \<Rightarrow>
        (case read_a3m_dict cd shared target_uri target_mapping_idx target_pid target_chain_list
                ([], (Map.empty, [])) of
           Inl e \<Rightarrow> Inl e
         | Inr (a3m_list, (align_data_dict, a3m_dict)) \<Rightarrow>
             (case add_target (zip target_chain_list a3m_list) [] [] 1 of
                Inl e \<Rightarrow> Inl e
              | Inr (target_seq, domains) \<Rightarrow>
                  let target_desc = ''>'' @ target_pid @ '' domains:'' @ seq_index_join cd domains
                  in (case hit_rows shared align_data_dict (zip target_chain_list a3m_list)
                             (new_a3m_dict shared a3m_dict) of
                        Inl e \<Rightarrow> Inl e
                      | Inr rows \<Rightarrow> Inr (item, target_desc # target_seq # rows, a3m_dict)))))"


section \<open>A concrete identifier codec for the examples\<close>

text \<open>
  Modelled from the spec: the external identifier codec \<open>decompose_pid\<close> of
  \<open>profold2.data.utils\<close>, which is not part of this repository. The spec describes a
  composite identifier as a base id, optionally suffixed with a chain label (the
  composite key \<open>base_id_chain\<close>) and optional domain ranges; headers written by this
  repository put the ranges after a slash (\<open>id/1-9\<close>). \<open>spec_decompose_pid\<close> cuts the
  ranges at the first slash and the chain label at the last underscore. The domain
  range syntax plays no part in the examples, so the two range functions are constant.
\<close>

definition split_last_underscore :: "string \<Rightarrow> string \<times> string option" where
  "split_last_underscore s =
     (if CHR ''_'' \<in> set s
      then (rev (drop 1 (dropWhile (\<lambda>c. c \<noteq> CHR ''_'') (rev s))),
            Some (rev (takeWhile (\<lambda>c. c \<noteq> CHR ''_'') (rev s))))
      else (s, None))"

definition spec_decompose_pid :: "string \<Rightarrow> string \<times> string option \<times> string option" where
  "spec_decompose_pid s =
     (let body = takeWhile (\<lambda>c. c \<noteq> CHR ''/'') s;
          domains = (if CHR ''/'' \<in> set s
                     then Some (drop 1 (dropWhile (\<lambda>c. c \<noteq> CHR ''/'') s)) else None)
      in (case split_last_underscore body of (pid, chain) \<Rightarrow> (pid, chain, domains)))"

definition spec_codec :: codec where
  "spec_codec =
     \<lparr>decompose_pid = spec_decompose_pid, seq_index_split = (\<lambda>_. []),
      seq_index_join = (\<lambda>_. [])\<rparr>"


section \<open>Example inputs\<close>

text \<open>
  A database with the complexes \<open>H1\<close> and \<open>H0\<close>, both of chains \<open>A\<close> and \<open>B\<close>
  and both with attributes, every chain its own canonical identifier; and the target
  \<open>T1\<close> of chains \<open>A\<close> and \<open>B\<close>. In \<open>example_uri\<close> the block of \<open>T1_A\<close> has the
  hits \<open>H1_A\<close> and \<open>H0_A\<close> and the block of \<open>T1_B\<close> has the hit \<open>H1_B\<close>.
\<close>

definition example_shared :: shared_obj where
  "example_shared =
     \<lparr>db_attr_idx = [''H1'' \<mapsto> ''{}'', ''H0'' \<mapsto> ''{}''],
      db_chain_idx = [''H1'' \<mapsto> [''A'', ''B''], ''H0'' \<mapsto> [''A'', ''B'']],
      db_mapping_idx = [''H1_A'' \<mapsto> ''H1_A'', ''H1_B'' \<mapsto> ''H1_B'', ''H0_A'' \<mapsto> ''H0_A''],
      db_mapping_dict = [''H1_A'' \<mapsto> [''H1_A''], ''H1_B'' \<mapsto> [''H1_B''], ''H0_A'' \<mapsto> [''H0_A'']]\<rparr>"

definition example_uri :: "string \<rightharpoonup> a3m_data" where
  "example_uri =
     [''T1_A'' \<mapsto> ([''AAAAA'', ''-AAA-'', ''AA---''], [''T1_A'', ''H1_A/2-4'', ''H0_A'']),
      ''T1_B'' \<mapsto> ([''BBBB'', ''BB--''], [''T1_B'', ''H1_B''])]"

text \<open>
  In \<open>example_uri_twice\<close> the hit \<open>H1_A\<close> is a row of both blocks, beside \<open>H1_B\<close>
  in the first; in \<open>example_uri_same\<close> the hit \<open>H1_A\<close> is the only hit of both
  blocks.
\<close>

definition example_uri_twice :: "string \<rightharpoonup> a3m_data" where
  "example_uri_twice =
     [''T1_A'' \<mapsto> ([''AAAAA'', ''-AAA-'', ''AA---''], [''T1_A'', ''H1_A'', ''H1_B'']),
      ''T1_B'' \<mapsto> ([''BBBB'', ''BB--''], [''T1_B'', ''H1_A''])]"

definition example_uri_same :: "string \<rightharpoonup> a3m_data" where
  "example_uri_same =
     [''T1_A'' \<mapsto> ([''AAAAA'', ''-AAA-''], [''T1_A'', ''H1_A'']),
      ''T1_B'' \<mapsto> ([''BBBB'', ''BB--''], [''T1_B'', ''H1_A''])]"

text \<open>
  A database in which \<open>H1\<close> is a homodimer: chain \<open>B\<close> has the sequence of chain
  \<open>A\<close>, so \<open>H1_B\<close> is an alias of the canonical \<open>H1_A\<close>.
\<close>

definition example_shared_alias :: shared_obj where
  "example_shared_alias =
     \<lparr>db_attr_idx = [''H1'' \<mapsto> ''{}''],
      db_chain_idx = [''H1'' \<mapsto> [''A'', ''B'']],
      db_mapping_idx = [''H1_A'' \<mapsto> ''H1_A'', ''H1_B'' \<mapsto> ''H1_A''],
      db_mapping_dict = [''H1_A'' \<mapsto> [''H1_A'', ''H1_B'']]\<rparr>"

text \<open>
  The target \<open>T2\<close> of chains \<open>A\<close> and \<open>B\<close> and a database whose complex \<open>H2\<close>
  has the single chain \<open>A\<close>: the block of \<open>T2_A\<close> has the hit \<open>H2_A\<close>, the block of
  \<open>T2_B\<close> has no hit.
\<close>

definition example_shared_single :: shared_obj where
  "example_shared_single =
     \<lparr>db_attr_idx = [''H2'' \<mapsto> ''{}''],
      db_chain_idx = [''H2'' \<mapsto> [''A'']],
      db_mapping_idx = [''H2_A'' \<mapsto> ''H2_A''],
      db_mapping_dict = [''H2_A'' \<mapsto> [''H2_A'']]\<rparr>"

definition example_uri_single :: "string \<rightharpoonup> a3m_data" where
  "example_uri_single =
     [''T2_A'' \<mapsto> ([''AAAAA'', ''-AAA-''], [''T2_A'', ''H2_A'']),
      ''T2_B'' \<mapsto> ([''BBB''], [''T2_B''])]"




section \<open>Properties of the automaton\<close>

lemma is_aligned_loop_scan:
  "is_aligned_loop target seq i j state = scan_pairs (zip (drop i target) (drop j seq)) state"
proof (induction target seq i j state rule: is_aligned_loop.induct)
  case (1 target seq i j state)
  show ?case
  proof (cases "i < length target \<and> j < length seq")
    case True
    then have d: "drop i target = target ! i # drop (Suc i) target"
      "drop j seq = seq ! j # drop (Suc j) seq"
      by (simp_all add: Cons_nth_drop_Suc)
    show ?thesis
      using True "1.IH"
      by (subst is_aligned_loop.simps) (simp add: d split: scan_state.splits)
  next
    case False
    then have "zip (drop i target) (drop j seq) = []"
      by auto
    with False show ?thesis
      by (subst is_aligned_loop.simps) auto
  qed
qed

lemma is_aligned_scan: "is_aligned target seq = scan_pairs (zip target seq) State0"
  by (simp add: is_aligned_def is_aligned_loop_scan)

lemma scan_pairs_take: "scan_pairs ps state \<Longrightarrow> scan_pairs (take k ps) state"
proof (induction ps state arbitrary: k rule: scan_pairs.induct)
  case (1 state)
  then show ?case by simp
next
  case (2 t c ps state)
  show ?case
  proof (cases k)
    case 0
    then show ?thesis by simp
  next
    case (Suc k')
    with 2 show ?thesis
      by (auto split: scan_state.splits if_splits)
  qed
qed

lemma zip_take_both: "zip (take (length ys) xs) (take (length xs) ys) = zip xs ys"
proof (induction xs arbitrary: ys)
  case Nil
  then show ?case by simp
next
  case (Cons x xs)
  then show ?case by (cases ys) simp_all
qed

lemma zip_take_right: "zip xs (take k ys) = take k (zip xs ys)"
proof (induction xs arbitrary: ys k)
  case Nil
  then show ?case by simp
next
  case (Cons x xs)
  show ?case
  proof (cases ys)
    case Nil
    then show ?thesis by simp
  next
    case (Cons y ys')
    with Cons.IH show ?thesis by (cases k) simp_all
  qed
qed

lemma is_aligned_loop_lower:
  "j \<le> p \<Longrightarrow> p < length seq \<Longrightarrow> p + (i - j) < length target \<Longrightarrow> j \<le> i \<Longrightarrow>
   islower (seq ! p) \<Longrightarrow> \<not> is_aligned_loop target seq i j state"
proof (induction target seq i j state rule: is_aligned_loop.induct)
  case (1 target seq i j state)
  show ?case
  proof (cases "j = p")
    case True
    with "1.prems" show ?thesis
      by (subst is_aligned_loop.simps) simp
  next
    case False
    with "1.prems" have lt: "j < p" "i < length target" "j < length seq" "Suc j \<le> p"
      "p + (Suc i - Suc j) < length target" "Suc j \<le> Suc i"
      by auto
    show ?thesis
      using "1.IH" lt "1.prems"(2,5)
      by (subst is_aligned_loop.simps) (auto split: scan_state.splits)
  qed
qed

text \<open>
  Claim C3 (as amended). With reference \<open>ABCDE\<close> the automaton rejects the candidate
  \<open>--BCD--\<close>: a gap consumes a reference position as well as a candidate position,
  so after the two leading gaps the candidate's \<open>B\<close> is compared with the
  reference's \<open>C\<close>. The column-aligned candidate \<open>-BCD-\<close> (one leading and one
  trailing gap around the exactly matching core) is accepted, and \<open>A-C-E\<close>, with a
  residue after a gap inside the core, is rejected.
\<close>

theorem is_aligned_reference_examples:
  "\<not> is_aligned ''ABCDE'' ''--BCD--'' \<and> is_aligned ''ABCDE'' ''-BCD-'' \<and>
   \<not> is_aligned ''ABCDE'' ''A-C-E''"
  by code_simp

text \<open>
  Claim C3 as stated fails: it is not the case that \<open>--BCD--\<close> is accepted and
  \<open>A-C-E\<close> rejected, because \<open>--BCD--\<close> is rejected.
\<close>

theorem is_aligned_double_gap_rejected:
  "\<not> (is_aligned ''ABCDE'' ''--BCD--'' \<and> \<not> is_aligned ''ABCDE'' ''A-C-E'')"
  by code_simp

text \<open>
  Claim C4 (as amended). The scan looks only at the columns both strings have: the
  verdict for \<open>target\<close> and \<open>seq\<close> is the verdict for the two strings cut to their
  common length. When either string is exhausted without a rejection the result is
  \<open>True\<close>; so the empty candidate is accepted for every reference, and every prefix of
  an accepted candidate is accepted.
\<close>

theorem is_aligned_common_columns_only:
  "is_aligned target seq = is_aligned (take (length seq) target) (take (length target) seq) \<and>
   is_aligned target [] \<and>
   (is_aligned target seq \<longrightarrow> is_aligned target (take k seq))"
proof (intro conjI impI)
  show "is_aligned target seq =
      is_aligned (take (length seq) target) (take (length target) seq)"
    by (simp add: is_aligned_scan zip_take_both)
  show "is_aligned target []"
    by (simp add: is_aligned_scan)
  show "is_aligned target (take k seq)" if "is_aligned target seq"
    using that by (simp add: is_aligned_scan zip_take_right scan_pairs_take)
qed

theorem is_aligned_common_columns_only_witness:
  "is_aligned ''ABCDE'' ''-BCD-'' \<and> is_aligned ''ABCDE'' ''-BC''"
proof -
  have h: "is_aligned ''ABCDE'' ''-BCD-''"
    by code_simp
  with is_aligned_common_columns_only [of "''ABCDE''" "''-BCD-''" 3]
  have "is_aligned ''ABCDE'' (take 3 ''-BCD-'')"
    by blast
  with h show ?thesis
    by simp
qed

text \<open>
  Claim C4 as stated fails: the candidate \<open>AB\<close> is shorter than the reference
  \<open>ABCDE\<close>, the loop ends with three reference positions unconsumed, and the
  result is \<open>True\<close>.
\<close>

theorem is_aligned_short_candidate_accepted:
  "length ''AB'' < length ''ABCDE'' \<and> is_aligned ''ABCDE'' ''AB''"
  by code_simp

text \<open>
  Claim C5 (as amended). A lowercase letter at a candidate position that the reference
  also has (a position below both lengths) makes the automaton reject, whatever the
  state reached there and whatever the rest of the candidate.
\<close>

theorem is_aligned_lowercase_rejected:
  "p < length seq \<Longrightarrow> p < length target \<Longrightarrow> islower (seq ! p) \<Longrightarrow> \<not> is_aligned target seq"
  unfolding is_aligned_def by (rule is_aligned_loop_lower) simp_all

theorem is_aligned_lowercase_rejected_witness:
  "(2::nat) < length ''-Bc'' \<and> 2 < length ''ABC'' \<and> islower (''-Bc'' ! 2) \<and>
   \<not> is_aligned ''ABC'' ''-Bc''"
proof -
  have h: "(2::nat) < length ''-Bc''" "(2::nat) < length ''ABC''" "islower (''-Bc'' ! 2)"
    by (simp_all add: islower_def)
  from is_aligned_lowercase_rejected [OF h] h show ?thesis
    by simp
qed

text \<open>
  Claim C5 as stated fails: a lowercase letter beyond the end of the reference is never
  read. The candidate \<open>Ab\<close> contains the lowercase \<open>b\<close> and is accepted against
  the reference \<open>A\<close>.
\<close>

theorem is_aligned_lowercase_beyond_reference_accepted:
  "islower (''Ab'' ! 1) \<and> is_aligned ''A'' ''Ab''"
  by code_simp


section \<open>Properties of the index reader\<close>

lemma split_from_spaces:
  "\<forall>c\<in>set t. isspace c \<Longrightarrow> split_from cur t = (if cur = [] then [] else [cur])"
  by (induction t arbitrary: cur) auto

lemma split_from_trailing:
  "\<forall>c\<in>set t. isspace c \<Longrightarrow> split_from cur (s @ t) = split_from cur s"
  by (induction s arbitrary: cur) (auto simp: split_from_spaces)

lemma split_from_leading: "split_from [] (dropWhile isspace s) = split_from [] s"
  by (induction s) auto

lemma split_strip: "split (strip s) = split s"
proof -
  define s' where "s' = dropWhile isspace s"
  have "s' = rev (dropWhile isspace (rev s')) @ rev (takeWhile isspace (rev s'))"
    by (metis rev_append rev_rev_ident takeWhile_dropWhile_id)
  moreover have "\<forall>c\<in>set (rev (takeWhile isspace (rev s'))). isspace c"
    by (auto dest: set_takeWhileD)
  ultimately have "split_from [] s' = split_from [] (rev (dropWhile isspace (rev s')))"
    by (metis split_from_trailing)
  then show ?thesis
    by (simp add: split_def strip_def s'_def split_from_leading)
qed

lemma strip_empty_split: "strip s = [] \<Longrightarrow> split s = []"
  using split_strip [of s] by (simp add: split_def)

lemma stripped_lines_split: "l' \<in> set (stripped_lines f) \<Longrightarrow> \<exists>l\<in>set f. split l' = split l"
  by (auto simp: stripped_lines_def split_strip)

lemma read_mapping_lines_other:
  "read_mapping_lines ls m0 = Inr m \<Longrightarrow> (\<forall>l\<in>set ls. \<forall>k. split l \<noteq> [k, x]) \<Longrightarrow> m x = m0 x"
proof (induction ls arbitrary: m0)
  case Nil
  then show ?case by simp
next
  case (Cons l ls)
  from Cons.prems(1) obtain k v where kv: "split l = [k, v]"
    and rest: "read_mapping_lines ls (m0(v \<mapsto> k)) = Inr m"
    by (auto split: list.splits)
  from Cons.prems(2) kv have "v \<noteq> x" by auto
  moreover from Cons.IH [OF rest] Cons.prems(2) have "m x = (m0(v \<mapsto> k)) x" by simp
  ultimately show ?case by simp
qed

lemma read_mapping_lines_last:
  "read_mapping_lines (pre @ l # post) m0 = Inr m \<Longrightarrow> split l = [k, v] \<Longrightarrow>
   (\<forall>l'\<in>set post. \<forall>k'. split l' \<noteq> [k', v]) \<Longrightarrow> m v = Some k"
proof (induction pre arbitrary: m0)
  case Nil
  then have "read_mapping_lines post (m0(v \<mapsto> k)) = Inr m" by simp
  from read_mapping_lines_other [OF this Nil.prems(3)] show ?case by simp
next
  case (Cons a pre)
  from Cons.prems(1) obtain k' v' where
    rest: "read_mapping_lines (pre @ l # post) (m0(v' \<mapsto> k')) = Inr m"
    by (auto split: list.splits)
  from Cons.IH [OF rest Cons.prems(2,3)] show ?case .
qed

text \<open>
  Claim C9. Let \<open>m\<close> be the aliasing map that \<open>read_mapping_idx\<close> builds from the
  lines \<open>f\<close> (each \<open>canonical alias\<close>) on top of a map \<open>m0\<close>, and let resolving an
  id \<open>x\<close> be \<open>read_a3m\<close>'s lookup \<open>mapping_idx.get(x, x)\<close>. Then: an id \<open>v\<close> listed
  as alias of \<open>k\<close> (in the last line that lists \<open>v\<close>) resolves to \<open>k\<close>; a
  canonical id \<open>k\<close> that no line lists as an alias, and that \<open>m0\<close> does not hold,
  resolves to itself; every id that is in no line as an alias and not in \<open>m0\<close>
  resolves to itself; and \<open>read_a3m\<close> opens the block of the resolved id.
\<close>

theorem read_mapping_idx_resolves:
  assumes "read_mapping_idx (Some f) m0 = Inr m"
  shows "(f = pre @ l # post \<longrightarrow> split l = [k, v] \<longrightarrow>
            (\<forall>l'\<in>set post. \<forall>k'. split l' \<noteq> [k', v]) \<longrightarrow> get_default m v v = k) \<and>
         (l \<in> set f \<longrightarrow> split l = [k, v] \<longrightarrow> k \<notin> dom m0 \<longrightarrow>
            (\<forall>l'\<in>set f. \<forall>k'. split l' \<noteq> [k', k]) \<longrightarrow> get_default m k k = k) \<and>
         (x \<notin> dom m0 \<longrightarrow> (\<forall>l'\<in>set f. \<forall>k'. split l' \<noteq> [k', x]) \<longrightarrow> get_default m x x = x) \<and>
         read_a3m data_uri m x = read_a3m data_uri Map.empty (get_default m x x)"
proof -
  from assms have r: "read_mapping_lines (stripped_lines f) m0 = Inr m"
    by (simp add: read_mapping_idx_def)
  have absent: "get_default m y y = y"
    if y: "y \<notin> dom m0" and no: "\<forall>l'\<in>set f. \<forall>k'. split l' \<noteq> [k', y]" for y
  proof -
    have "\<forall>l'\<in>set (stripped_lines f). \<forall>k'. split l' \<noteq> [k', y]"
      using no stripped_lines_split by metis
    from read_mapping_lines_other [OF r this] y have "m y = None" by auto
    then show ?thesis by (simp add: get_default_def)
  qed
  have aliased: "get_default m v v = k"
    if f: "f = pre @ l # post" and kv: "split l = [k, v]"
      and post: "\<forall>l'\<in>set post. \<forall>k'. split l' \<noteq> [k', v]"
  proof -
    from kv have "strip l \<noteq> []" using strip_empty_split by fastforce
    then have "stripped_lines f = stripped_lines pre @ strip l # stripped_lines post"
      by (simp add: f stripped_lines_def)
    moreover have "split (strip l) = [k, v]" by (simp add: split_strip kv)
    moreover have "\<forall>l'\<in>set (stripped_lines post). \<forall>k'. split l' \<noteq> [k', v]"
      using post stripped_lines_split by metis
    ultimately have "m v = Some k"
      using r read_mapping_lines_last by metis
    then show ?thesis by (simp add: get_default_def)
  qed
  have "read_a3m data_uri m x = read_a3m data_uri Map.empty (get_default m x x)"
    by (simp add: read_a3m_def get_default_def)
  with aliased absent show ?thesis
    by simp
qed

lemma split_examples:
  "split ''C1 A1'' = [''C1'', ''A1'']" "split ''  C2   A2 '' = [''C2'', ''A2'']"
  "split ''C3 A1'' = [''C3'', ''A1'']" "split '''' = []"
  by (simp_all add: split_def isspace_def)

theorem read_mapping_idx_resolves_witness:
  "\<exists>m. read_mapping_idx (Some [''C1 A1'', '''', ''  C2   A2 '', ''C3 A1'']) Map.empty = Inr m \<and>
     get_default m ''A1'' ''A1'' = ''C3'' \<and> get_default m ''C2'' ''C2'' = ''C2'' \<and>
     get_default m ''X9'' ''X9'' = ''X9''"
proof -
  let ?f = "[''C1 A1'', '''', ''  C2   A2 '', ''C3 A1'']"
  have s: "stripped_lines ?f = [''C1 A1'', ''C2   A2'', ''C3 A1'']"
    by (simp add: stripped_lines_def strip_def isspace_def)
  have s2: "split ''C2   A2'' = [''C2'', ''A2'']"
    by (simp add: split_def isspace_def)
  obtain m where m: "read_mapping_idx (Some ?f) Map.empty = Inr m"
    by (simp add: read_mapping_idx_def s s2 split_examples)
  have no_c2: "\<forall>l'\<in>set ?f. \<forall>k'. split l' \<noteq> [k', ''C2'']"
    by (simp add: split_examples)
  have no_x9: "\<forall>l'\<in>set ?f. \<forall>k'. split l' \<noteq> [k', ''X9'']"
    by (simp add: split_examples)
  have a1: "get_default m ''A1'' ''A1'' = ''C3''"
    using read_mapping_idx_resolves [OF m, of "[''C1 A1'', '''', ''  C2   A2 '']" "''C3 A1''" "[]"
        "''C3''" "''A1''"]
    by (simp add: split_examples)
  have c2: "get_default m ''C2'' ''C2'' = ''C2''"
    using read_mapping_idx_resolves [OF m, of _ "''  C2   A2 ''" _ "''C2''" "''A2''"] no_c2
    by (simp add: split_examples)
  have x9: "get_default m ''X9'' ''X9'' = ''X9''"
    using read_mapping_idx_resolves [OF m, of _ _ _ _ _ "''X9''"] no_x9
    by simp
  from m a1 c2 x9 show ?thesis
    by blast
qed


section \<open>Properties of the gap normalization\<close>

lemma length_sub_leading_gaps: "length (sub_leading_gaps s) = length s"
proof -
  have "length (takeWhile (\<lambda>c. c = CHR ''-'') s) + length (dropWhile (\<lambda>c. c = CHR ''-'') s) = length s"
    by (metis length_append takeWhile_dropWhile_id)
  then show ?thesis
    by (simp add: sub_leading_gaps_def repl_def)
qed

lemma length_sub_gaps_at_end: "length (sub_gaps_at_end s) = length s"
proof -
  have "length (takeWhile (\<lambda>c. c = CHR ''-'') (rev s)) + length (dropWhile (\<lambda>c. c = CHR ''-'') (rev s)) = length (rev s)"
    by (metis length_append takeWhile_dropWhile_id)
  then show ?thesis
    by (simp add: sub_gaps_at_end_def repl_def)
qed

lemma length_sub_trailing_gaps: "length (sub_trailing_gaps s) = length s"
  by (simp add: sub_trailing_gaps_def length_sub_gaps_at_end)

lemma length_mask_end_gaps: "length (mask_end_gaps s) = length s"
  by (simp add: mask_end_gaps_def length_sub_trailing_gaps length_sub_leading_gaps)

lemma takeWhile_replicate_append:
  "P x \<Longrightarrow> takeWhile P (replicate a x @ ys) = replicate a x @ takeWhile P ys"
  by (induction a) simp_all

lemma dropWhile_replicate_append:
  "P x \<Longrightarrow> dropWhile P (replicate a x @ ys) = dropWhile P ys"
  by (induction a) simp_all

lemma takeWhile_gap_run:
  "core \<noteq> [] \<Longrightarrow> hd core \<noteq> CHR ''-'' \<Longrightarrow>
   takeWhile (\<lambda>c. c = CHR ''-'') (replicate a CHR ''-'' @ core @ post) = replicate a CHR ''-''"
  by (cases core) (simp_all add: takeWhile_replicate_append)

lemma dropWhile_gap_run:
  "core \<noteq> [] \<Longrightarrow> hd core \<noteq> CHR ''-'' \<Longrightarrow>
   dropWhile (\<lambda>c. c = CHR ''-'') (replicate a CHR ''-'' @ core @ post) = core @ post"
  by (cases core) (simp_all add: dropWhile_replicate_append)

lemma sub_leading_gaps_run:
  "core \<noteq> [] \<Longrightarrow> hd core \<noteq> CHR ''-'' \<Longrightarrow>
   sub_leading_gaps (replicate a CHR ''-'' @ core @ post) = replicate a CHR ''*'' @ core @ post"
  by (simp add: sub_leading_gaps_def takeWhile_gap_run dropWhile_gap_run repl_def)

lemma sub_gaps_at_end_run:
  assumes "core \<noteq> []" "last core \<noteq> CHR ''-''"
  shows "sub_gaps_at_end (pre @ core @ replicate b CHR ''-'') = pre @ core @ replicate b CHR ''*''"
proof -
  have r: "rev (pre @ core @ replicate b CHR ''-'') = replicate b CHR ''-'' @ rev core @ rev pre"
    by simp
  have "rev core \<noteq> []" "hd (rev core) \<noteq> CHR ''-''"
    using assms by (simp_all add: hd_rev)
  then show ?thesis
    unfolding sub_gaps_at_end_def r
    by (simp add: takeWhile_gap_run dropWhile_gap_run repl_def)
qed

lemma sub_trailing_gaps_run:
  assumes "core \<noteq> []" "last core \<noteq> CHR ''-''" "last core \<noteq> CHR 0x0A"
  shows "sub_trailing_gaps (pre @ core @ replicate b CHR ''-'') = pre @ core @ replicate b CHR ''*''"
proof -
  have "last (pre @ core @ replicate b CHR ''-'') \<noteq> CHR 0x0A"
    using assms by (cases b) simp_all
  then show ?thesis
    using assms by (simp add: sub_trailing_gaps_def sub_gaps_at_end_run)
qed

lemma mask_all_gaps: "mask_end_gaps (replicate n CHR ''-'') = replicate n CHR ''*''"
proof -
  have l: "sub_leading_gaps (replicate n CHR ''-'') = replicate n CHR ''*''"
    by (simp add: sub_leading_gaps_def repl_def)
  have "sub_gaps_at_end (replicate n CHR ''*'') = replicate n CHR ''*''"
    by (simp add: sub_gaps_at_end_def repl_def)
  moreover have "replicate n CHR ''*'' \<noteq> [] \<longrightarrow> last (replicate n CHR ''*'') \<noteq> CHR 0x0A"
    by (cases n) simp_all
  ultimately show ?thesis
    by (auto simp add: mask_end_gaps_def l sub_trailing_gaps_def)
qed

text \<open>
  Claim C6. For a selected hit row (a line of an alignment block, so without a line
  feed at its end), the normalization of lines 282-283 keeps the length; it turns the
  run of \<open>a\<close> gaps at the very start and the run of \<open>b\<close> gaps at the very end
  into \<open>a\<close> and \<open>b\<close> characters \<open>*\<close> and leaves the core between them, with all
  its internal gap runs, as it is (the core is the row without its two terminal runs:
  it neither starts nor ends with a gap); a row of gaps only becomes a row of \<open>*\<close>
  of the same length. \<open>---XYZ---\<close> becomes \<open>***XYZ***\<close> and \<open>XY--Z\<close> stays.
  The last conjunct ties the function to \<open>align_complex\<close>: the contribution of the
  first record tagged with the target chain is the normalized row.
\<close>

theorem mask_end_gaps_terminal_runs:
  "length (mask_end_gaps row) = length row \<and>
   (core \<noteq> [] \<longrightarrow> hd core \<noteq> CHR ''-'' \<longrightarrow> last core \<noteq> CHR ''-'' \<longrightarrow> last core \<noteq> CHR 0x0A \<longrightarrow>
      mask_end_gaps (replicate a CHR ''-'' @ core @ replicate b CHR ''-'') =
        replicate a CHR ''*'' @ core @ replicate b CHR ''*'') \<and>
   mask_end_gaps (replicate n CHR ''-'') = replicate n CHR ''*'' \<and>
   mask_end_gaps ''---XYZ---'' = ''***XYZ***'' \<and> mask_end_gaps ''XY--Z'' = ''XY--Z'' \<and>
   (hit_record shared align_data_dict (compose_id pid chain) = Inr (domains, row, desc, target_chain) \<longrightarrow>
      hit_seq_at_i shared align_data_dict pid target_chain placeholder (chain # chain_list) =
        Inr (mask_end_gaps row))"
proof (intro conjI impI)
  show "length (mask_end_gaps row) = length row"
    by (rule length_mask_end_gaps)
  show "mask_end_gaps (replicate a CHR ''-'' @ core @ replicate b CHR ''-'') =
        replicate a CHR ''*'' @ core @ replicate b CHR ''*''"
    if "core \<noteq> []" "hd core \<noteq> CHR ''-''" "last core \<noteq> CHR ''-''" "last core \<noteq> CHR 0x0A"
    using that by (simp add: mask_end_gaps_def sub_leading_gaps_run sub_trailing_gaps_run)
  show "mask_end_gaps (replicate n CHR ''-'') = replicate n CHR ''*''"
    by (rule mask_all_gaps)
  show "mask_end_gaps ''---XYZ---'' = ''***XYZ***''"
    by code_simp
  show "mask_end_gaps ''XY--Z'' = ''XY--Z''"
    by code_simp
  show "hit_seq_at_i shared align_data_dict pid target_chain placeholder (chain # chain_list) =
        Inr (mask_end_gaps row)"
    if "hit_record shared align_data_dict (compose_id pid chain) = Inr (domains, row, desc, target_chain)"
    using that by (simp add: record_target_chain_def)
qed

theorem mask_end_gaps_terminal_runs_witness:
  "mask_end_gaps (replicate 2 CHR ''-'' @ ''X-Y'' @ replicate 1 CHR ''-'') = ''**X-Y*'' \<and>
   hit_seq_at_i \<lparr>db_attr_idx = Map.empty, db_chain_idx = Map.empty,
       db_mapping_idx = [''H1_A'' \<mapsto> ''H1_A''], db_mapping_dict = Map.empty\<rparr>
     [''H1_A'' \<mapsto> ([], ''--X-Y-'', ''H1_A'', ''A'')] ''H1'' ''A'' ''******'' [Some ''A'']
     = Inr ''**X-Y*''"
proof -
  let ?sh = "\<lparr>db_attr_idx = Map.empty, db_chain_idx = Map.empty,
       db_mapping_idx = [''H1_A'' \<mapsto> ''H1_A''], db_mapping_dict = Map.empty\<rparr>"
  let ?data = "[''H1_A'' \<mapsto> ([], ''--X-Y-'', ''H1_A'', ''A'')]"
  have m: "mask_end_gaps (replicate 2 CHR ''-'' @ ''X-Y'' @ replicate 1 CHR ''-'') = ''**X-Y*''"
    using mask_end_gaps_terminal_runs [where core = "''X-Y''" and a = 2 and b = 1] by (simp add: eval_nat_numeral)
  have r: "hit_record ?sh ?data (compose_id ''H1'' (Some ''A'')) = Inr ([], ''--X-Y-'', ''H1_A'', ''A'')"
    by (simp add: hit_record_def compose_id_def)
  have "hit_seq_at_i ?sh ?data ''H1'' ''A'' ''******'' (Some ''A'' # []) = Inr (mask_end_gaps ''--X-Y-'')"
    using mask_end_gaps_terminal_runs [where shared = ?sh and align_data_dict = ?data
        and pid = "''H1''" and chain = "Some ''A''" and domains = "[]" and row = "''--X-Y-''"
        and desc = "''H1_A''" and target_chain = "''A''" and placeholder = "''******''"
        and chain_list = "[]"] r
    by blast
  with m show ?thesis
    by (simp add: eval_nat_numeral)
qed


section \<open>Properties of the hit indexer\<close>

lemma coverage_dict_append:
  "coverage (dict_append k v d) b = (if b = k then coverage d b @ [v] else coverage d b)"
  by (induction d) (auto simp: coverage_def get_default_def)

lemma coverage_credit:
  "coverage (credit cd d x) b =
   (if pid_of cd x = b then coverage d b @ [chain_of cd x] else coverage d b)"
  by (auto simp: credit_def coverage_dict_append)

lemma coverage_foldl_credit:
  "coverage (foldl (credit cd) d ids) b =
   coverage d b @ map (chain_of cd) (filter (\<lambda>x. pid_of cd x = b) ids)"
  by (induction ids arbitrary: d) (auto simp: coverage_credit)

lemma mset_credited:
  "mset (map f (filter P (remdups (x # xs)))) =
   image_mset f (filter_mset P (mset_set (insert x (set xs))))"
proof -
  have "mset (remdups (x # xs)) = mset_set (set (x # xs))"
    by (metis distinct_remdups mset_set_set set_remdups)
  then show ?thesis
    by (simp only: mset_map mset_filter list.set)
qed

lemma header_id_token:
  "split desc = tok # toks \<Longrightarrow> decompose_pid cd tok = (pid, chain, domains) \<Longrightarrow>
   header_id cd desc = Some (compose_id pid chain) \<and>
   header_domains cd desc = row_domains cd domains"
  by (simp add: header_id_def header_domains_def)

lemma header_id_None: "(header_id cd desc = None) = (split desc = [])"
  by (auto simp: header_id_def split: list.splits prod.splits)

lemma align_a3m_row_Some:
  "header_id cd desc = Some k \<Longrightarrow>
   align_a3m_row cd md tc (data, cov) (seq, desc) =
     Inr (data(k \<mapsto> (header_domains cd desc, seq, desc, tc)),
          foldl (credit cd) cov (remdups (k # get_default md k [])))"
  by (auto simp: header_id_def header_domains_def align_a3m_row_def Let_def
      split: list.splits prod.splits)

lemma align_a3m_row_None:
  "split desc = [] \<Longrightarrow> align_a3m_row cd md tc (data, cov) (seq, desc) = Inl IndexError"
  by (simp add: align_a3m_row_def)

lemma align_a3m_row_cases:
  assumes "align_a3m_row cd md tc (data, cov) (seq, desc) = Inr (data1, cov1)"
  shows "\<exists>k. header_id cd desc = Some k \<and>
           data1 = data(k \<mapsto> (header_domains cd desc, seq, desc, tc)) \<and>
           cov1 = foldl (credit cd) cov (remdups (k # get_default md k []))"
proof (cases "header_id cd desc")
  case None
  then have "split desc = []"
    by (simp add: header_id_None)
  with assms show ?thesis
    by (simp add: align_a3m_row_None)
next
  case (Some k)
  with assms align_a3m_row_Some [OF Some, of md tc data cov seq] show ?thesis
    by simp
qed

lemma align_a3m_rows_total:
  "\<forall>(seq, desc)\<in>set rows. split desc \<noteq> [] \<Longrightarrow>
   \<exists>data' cov'. align_a3m_rows cd md tc rows (data, cov) = Inr (data', cov')"
proof (induction rows arbitrary: data cov)
  case Nil
  then show ?case by simp
next
  case (Cons row rows)
  obtain seq desc where row: "row = (seq, desc)"
    by (cases row)
  from Cons.prems have "split desc \<noteq> []"
    by (simp add: row)
  then obtain k where k: "header_id cd desc = Some k"
    using header_id_None [of cd desc] by auto
  from Cons.prems have "\<forall>(seq, desc)\<in>set rows. split desc \<noteq> []"
    by simp
  from Cons.IH [OF this] show ?case
    by (simp add: row align_a3m_row_Some [OF k])
qed

lemma align_a3m_rows_error:
  "\<exists>(seq, desc)\<in>set rows. split desc = [] \<Longrightarrow>
   align_a3m_rows cd md tc rows (data, cov) = Inl IndexError"
proof (induction rows arbitrary: data cov)
  case Nil
  then show ?case by simp
next
  case (Cons row rows)
  obtain seq desc where row: "row = (seq, desc)"
    by (cases row)
  show ?case
  proof (cases "split desc = []")
    case True
    then show ?thesis
      by (simp add: row align_a3m_row_None)
  next
    case False
    then obtain k where k: "header_id cd desc = Some k"
      using header_id_None [of cd desc] by auto
    from Cons.prems False have "\<exists>(seq, desc)\<in>set rows. split desc = []"
      by (auto simp: row)
    from Cons.IH [OF this] show ?thesis
      by (simp add: row align_a3m_row_Some [OF k])
  qed
qed

lemma align_a3m_rows_other:
  "align_a3m_rows cd md tc rows (data, cov) = Inr (data', cov') \<Longrightarrow>
   \<forall>(s, d)\<in>set rows. header_id cd d \<noteq> Some k \<Longrightarrow> data' k = data k"
proof (induction rows arbitrary: data cov)
  case Nil
  then show ?case by simp
next
  case (Cons row rows)
  obtain seq desc where row: "row = (seq, desc)"
    by (cases row)
  from Cons.prems(1) obtain data1 cov1 where
    step: "align_a3m_row cd md tc (data, cov) (seq, desc) = Inr (data1, cov1)"
    and rest: "align_a3m_rows cd md tc rows (data1, cov1) = Inr (data', cov')"
    unfolding row by (auto split: sum.splits)
  from align_a3m_row_cases [OF step] obtain k' where k': "header_id cd desc = Some k'"
    and d1: "data1 = data(k' \<mapsto> (header_domains cd desc, seq, desc, tc))"
    by blast
  from Cons.prems(2) k' have "k' \<noteq> k"
    by (auto simp: row)
  moreover from Cons.prems(2) have "\<forall>(s, d)\<in>set rows. header_id cd d \<noteq> Some k"
    by simp
  from Cons.IH [OF rest this] have "data' k = data1 k" .
  ultimately show ?case
    by (simp add: d1)
qed

lemma align_a3m_rows_last:
  "align_a3m_rows cd md tc (pre @ (seq, desc) # post) (data, cov) = Inr (data', cov') \<Longrightarrow>
   header_id cd desc = Some k \<Longrightarrow> \<forall>(s, d)\<in>set post. header_id cd d \<noteq> Some k \<Longrightarrow>
   data' k = Some (header_domains cd desc, seq, desc, tc)"
proof (induction pre arbitrary: data cov)
  case Nil
  from Nil.prems(1) have
    "align_a3m_rows cd md tc post
       (data(k \<mapsto> (header_domains cd desc, seq, desc, tc)),
        foldl (credit cd) cov (remdups (k # get_default md k []))) = Inr (data', cov')"
    by (simp add: align_a3m_row_Some [OF Nil.prems(2)])
  from align_a3m_rows_other [OF this Nil.prems(3)] show ?case
    by simp
next
  case (Cons row pre)
  obtain s d where row: "row = (s, d)"
    by (cases row)
  from Cons.prems(1) obtain data1 cov1 where
    rest: "align_a3m_rows cd md tc (pre @ (seq, desc) # post) (data1, cov1) = Inr (data', cov')"
    unfolding row by (auto split: sum.splits)
  from Cons.IH [OF rest Cons.prems(2,3)] show ?case .
qed

lemma align_a3m_rows_coverage:
  "align_a3m_rows cd md tc rows (data, cov) = Inr (data', cov') \<Longrightarrow>
   coverage cov' b = coverage cov b @
     concat (map (\<lambda>(seq, desc).
        case header_id cd desc of
          None \<Rightarrow> []
        | Some k \<Rightarrow> map (chain_of cd)
            (filter (\<lambda>x. pid_of cd x = b) (remdups (k # get_default md k [])))) rows)"
proof (induction rows arbitrary: data cov)
  case Nil
  then show ?case by simp
next
  case (Cons row rows)
  obtain seq desc where row: "row = (seq, desc)"
    by (cases row)
  from Cons.prems(1) obtain data1 cov1 where
    step: "align_a3m_row cd md tc (data, cov) (seq, desc) = Inr (data1, cov1)"
    and rest: "align_a3m_rows cd md tc rows (data1, cov1) = Inr (data', cov')"
    unfolding row by (auto split: sum.splits)
  from align_a3m_row_cases [OF step] obtain k where k: "header_id cd desc = Some k"
    and c1: "cov1 = foldl (credit cd) cov (remdups (k # get_default md k []))"
    by blast
  from Cons.IH [OF rest] show ?case
    by (simp add: row k c1 coverage_foldl_credit)
qed

lemma mset_row_credit:
  "mset (case header_id cd desc of
           None \<Rightarrow> []
         | Some k \<Rightarrow> map (chain_of cd)
             (filter (\<lambda>x. pid_of cd x = b) (remdups (k # get_default md k [])))) =
   (case header_id cd desc of
      None \<Rightarrow> {#}
    | Some k \<Rightarrow> image_mset (chain_of cd)
        (filter_mset (\<lambda>x. pid_of cd x = b)
           (mset_set (insert k (set (get_default md k []))))))"
  by (cases "header_id cd desc") (simp_all only: option.case mset.simps mset_credited)

lemma mset_rows_credit:
  "mset (concat (map (\<lambda>(seq, desc).
        case header_id cd desc of
          None \<Rightarrow> []
        | Some k \<Rightarrow> map (chain_of cd)
            (filter (\<lambda>x. pid_of cd x = b) (remdups (k # get_default md k [])))) rows)) =
   (\<Sum>(seq, desc)\<leftarrow>rows.
      case header_id cd desc of
        None \<Rightarrow> {#}
      | Some k \<Rightarrow> image_mset (chain_of cd)
          (filter_mset (\<lambda>x. pid_of cd x = b)
             (mset_set (insert k (set (get_default md k []))))))"
proof (induction rows)
  case Nil
  then show ?case by simp
next
  case (Cons row rows)
  obtain seq desc where row: "row = (seq, desc)"
    by (cases row)
  show ?case
    unfolding row using Cons.IH
    by (simp only: list.map concat.simps mset_append prod.case sum_list.Cons mset_row_credit)
qed

text \<open>
  Claim C8 (as amended). Let \<open>rows\<close> be the rows of a chain's block after the first
  (the query). \<open>align_a3m\<close> returns iff every header of \<open>rows\<close> has a first token
  (otherwise it raises \<open>IndexError\<close>), and when it returns the store \<open>data'\<close> and
  the accumulator \<open>cov'\<close>:
  \<^item> for every row of \<open>rows\<close>, with header token decomposed into
    \<open>(pid, chain, domains)\<close>, the store holds under the composite key \<open>pid_chain\<close>
    (or \<open>pid\<close> when chainless) a record tagged with the target chain being processed;
    it is the record \<open>(domains, seq, desc, target_chain)\<close> of that row unless a later
    row of the block has the same key (then it is the record of the last such row);
  \<^item> a key that no row of \<open>rows\<close> has keeps what the store held before;
  \<^item> for every base id \<open>b\<close> the coverage entry of \<open>b\<close> is extended at its end by
    the labels \<open>added\<close>: for every row, one label for each distinct identifier among
    the row's key and the known aliases of that key whose own base id is \<open>b\<close>, that
    label being the identifier's own chain label (for an alias, the alias's label, not
    the hit's);
  \<^item> the query row is never registered: the result does not depend on it, and a
    block of the query alone changes nothing.
\<close>

theorem align_a3m_registers_rows:
  assumes "rows = zip (drop 1 seqs) (drop 1 descs)"
  shows "((\<forall>(seq, desc)\<in>set rows. split desc \<noteq> []) \<longrightarrow>
            (\<exists>data' cov'. align_a3m cd (seqs, descs) mapping_dict (data, cov) target_chain =
               Inr (data', cov'))) \<and>
         ((\<exists>(seq, desc)\<in>set rows. split desc = []) \<longrightarrow>
            align_a3m cd (seqs, descs) mapping_dict (data, cov) target_chain = Inl IndexError) \<and>
         (align_a3m cd (seqs, descs) mapping_dict (data, cov) target_chain = Inr (data', cov') \<longrightarrow>
            (\<forall>pre seq desc post tok toks pid chain domains.
               rows = pre @ (seq, desc) # post \<longrightarrow> split desc = tok # toks \<longrightarrow>
               decompose_pid cd tok = (pid, chain, domains) \<longrightarrow>
               (let key = (case chain of None \<Rightarrow> pid
                           | Some c \<Rightarrow> if c = [] then pid else pid @ ''_'' @ c)
                in (\<exists>r. data' key = Some r \<and> record_target_chain r = target_chain) \<and>
                   ((\<forall>(s, d)\<in>set post. header_id cd d \<noteq> Some key) \<longrightarrow>
                      data' key =
                        Some ((case domains of None \<Rightarrow> []
                               | Some d \<Rightarrow> if d = [] then [] else seq_index_split cd d),
                              seq, desc, target_chain)))) \<and>
            (\<forall>k. (\<forall>(s, d)\<in>set rows. header_id cd d \<noteq> Some k) \<longrightarrow> data' k = data k) \<and>
            (\<forall>b. \<exists>added. coverage cov' b = coverage cov b @ added \<and>
               mset added =
                 (\<Sum>(seq, desc)\<leftarrow>rows.
                    case header_id cd desc of
                      None \<Rightarrow> {#}
                    | Some k \<Rightarrow> image_mset (chain_of cd)
                        (filter_mset (\<lambda>x. pid_of cd x = b)
                           (mset_set (insert k (set (get_default mapping_dict k [])))))))) \<and>
         align_a3m cd (seq0 # tl_seqs, desc0 # tl_descs) mapping_dict align_dict target_chain =
           align_a3m cd (seq1 # tl_seqs, desc1 # tl_descs) mapping_dict align_dict target_chain \<and>
         align_a3m cd ([seq0], [desc0]) mapping_dict align_dict target_chain = Inr align_dict"
proof (intro conjI impI allI)
  have a: "align_a3m cd (seqs, descs) mapping_dict (data, cov) target_chain =
           align_a3m_rows cd mapping_dict target_chain rows (data, cov)"
    by (simp add: align_a3m_def assms)
  show "\<exists>data' cov'. align_a3m cd (seqs, descs) mapping_dict (data, cov) target_chain =
          Inr (data', cov')"
    if "\<forall>(seq, desc)\<in>set rows. split desc \<noteq> []"
    unfolding a using align_a3m_rows_total [OF that] .
  show "align_a3m cd (seqs, descs) mapping_dict (data, cov) target_chain = Inl IndexError"
    if "\<exists>(seq, desc)\<in>set rows. split desc = []"
    unfolding a using align_a3m_rows_error [OF that] .
  show "align_a3m cd (seq0 # tl_seqs, desc0 # tl_descs) mapping_dict align_dict target_chain =
        align_a3m cd (seq1 # tl_seqs, desc1 # tl_descs) mapping_dict align_dict target_chain"
    by (simp add: align_a3m_def)
  show "align_a3m cd ([seq0], [desc0]) mapping_dict align_dict target_chain = Inr align_dict"
    by (simp add: align_a3m_def)
next
  assume "align_a3m cd (seqs, descs) mapping_dict (data, cov) target_chain = Inr (data', cov')"
  then have r: "align_a3m_rows cd mapping_dict target_chain rows (data, cov) = Inr (data', cov')"
    by (simp add: align_a3m_def assms)
  show "data' k = data k" if "\<forall>(s, d)\<in>set rows. header_id cd d \<noteq> Some k" for k
    using align_a3m_rows_other [OF r that] .
  show "\<exists>added. coverage cov' b = coverage cov b @ added \<and>
          mset added =
            (\<Sum>(seq, desc)\<leftarrow>rows.
               case header_id cd desc of
                 None \<Rightarrow> {#}
               | Some k \<Rightarrow> image_mset (chain_of cd)
                   (filter_mset (\<lambda>x. pid_of cd x = b)
                      (mset_set (insert k (set (get_default mapping_dict k []))))))" for b
    using align_a3m_rows_coverage [OF r, of b] mset_rows_credit [of cd b mapping_dict rows]
    by blast
  fix pre seq desc post tok toks pid chain domains
  assume split_rows: "rows = pre @ (seq, desc) # post"
    and tok: "split desc = tok # toks"
    and dec: "decompose_pid cd tok = (pid, chain, domains)"
  let ?key = "case chain of None \<Rightarrow> pid | Some c \<Rightarrow> if c = [] then pid else pid @ ''_'' @ c"
  let ?doms = "case domains of None \<Rightarrow> [] | Some d \<Rightarrow> if d = [] then [] else seq_index_split cd d"
  have key: "compose_id pid chain = ?key"
    by (simp add: compose_id_def split: option.splits)
  have doms: "row_domains cd domains = ?doms"
    by (simp add: row_domains_def split: option.splits)
  from header_id_token [OF tok dec] have hid: "header_id cd desc = Some ?key"
    and hdom: "header_domains cd desc = ?doms"
    by (simp_all add: key doms)
  have last_wins: "data' ?key = Some (?doms, seq, desc, target_chain)"
    if "\<forall>(s, d)\<in>set post. header_id cd d \<noteq> Some ?key"
    using align_a3m_rows_last [OF r [unfolded split_rows] hid that] by (simp add: hdom)
  have tagged: "\<exists>r. data' ?key = Some r \<and> record_target_chain r = target_chain"
  proof (cases "\<forall>(s, d)\<in>set post. header_id cd d \<noteq> Some ?key")
    case True
    from last_wins [OF True] show ?thesis
      by (simp add: record_target_chain_def)
  next
    case False
    then have "\<exists>x\<in>set post. header_id cd (snd x) = Some ?key"
      by (simp add: case_prod_beta)
    from split_list_last_prop [OF this] obtain mid x post' where
      p: "post = mid @ x # post'" and x: "header_id cd (snd x) = Some ?key"
      and l: "\<forall>z\<in>set post'. header_id cd (snd z) \<noteq> Some ?key"
      by blast
    obtain s d where xd: "x = (s, d)"
      by (cases x)
    have rows': "rows = (pre @ (seq, desc) # mid) @ (s, d) # post'"
      by (simp add: split_rows p xd)
    from x l have "header_id cd d = Some ?key" "\<forall>(s, d)\<in>set post'. header_id cd d \<noteq> Some ?key"
      by (auto simp: xd)
    from align_a3m_rows_last [OF r [unfolded rows'] this]
    show ?thesis
      by (simp add: record_target_chain_def)
  qed
  from tagged last_wins
  show "let key = ?key
        in (\<exists>r. data' key = Some r \<and> record_target_chain r = target_chain) \<and>
           ((\<forall>(s, d)\<in>set post. header_id cd d \<noteq> Some key) \<longrightarrow>
              data' key = Some (?doms, seq, desc, target_chain))"
    by (simp add: Let_def)
qed

theorem align_a3m_registers_rows_witness:
  "\<exists>data' cov'.
     align_a3m spec_codec ([''AAA'', ''AAA'', ''A-A''], [''T1_A'', ''H1_A'', ''H3_A''])
       [''H1_A'' \<mapsto> [''H2_B'']] (Map.empty, []) ''A'' = Inr (data', cov') \<and>
     data' ''H1_A'' = Some ([], ''AAA'', ''H1_A'', ''A'') \<and>
     data' ''T1_A'' = None \<and>
     coverage cov' ''H2'' = [Some ''B'']"
proof -
  let ?seqs = "[''AAA'', ''AAA'', ''A-A'']"
  let ?descs = "[''T1_A'', ''H1_A'', ''H3_A'']"
  let ?md = "[''H1_A'' \<mapsto> [''H2_B'']]"
  let ?rows = "[(''AAA'', ''H1_A''), (''A-A'', ''H3_A'')]"
  have rows: "?rows = zip (drop 1 ?seqs) (drop 1 ?descs)"
    by simp
  have tok: "split ''H1_A'' = ''H1_A'' # []" "split ''H3_A'' = ''H3_A'' # []"
    by (simp_all add: split_def isspace_def)
  have dec: "decompose_pid spec_codec ''H1_A'' = (''H1'', Some ''A'', None)"
    "decompose_pid spec_codec ''H3_A'' = (''H3'', Some ''A'', None)"
    by (simp_all add: spec_codec_def spec_decompose_pid_def split_last_underscore_def)
  have hid: "header_id spec_codec ''H1_A'' = Some ''H1_A''"
    "header_id spec_codec ''H3_A'' = Some ''H3_A''"
    by (simp_all add: header_id_def tok dec compose_id_def)
  have of: "pid_of spec_codec ''H2_B'' = ''H2''" "chain_of spec_codec ''H2_B'' = Some ''B''"
    "pid_of spec_codec ''H1_A'' = ''H1''" "pid_of spec_codec ''H3_A'' = ''H3''"
    by (simp_all add: pid_of_def chain_of_def spec_codec_def spec_decompose_pid_def
        split_last_underscore_def)
  note t = align_a3m_registers_rows [OF rows, where cd = spec_codec and mapping_dict = ?md
      and data = Map.empty and cov = "[]" and target_chain = "''A''"]
  have "\<forall>(seq, desc)\<in>set ?rows. split desc \<noteq> []"
    by (simp add: tok)
  with t [THEN conjunct1] obtain data' cov' where
    r: "align_a3m spec_codec (?seqs, ?descs) ?md (Map.empty, []) ''A'' = Inr (data', cov')"
    by blast
  note t3 = t [where data' = data' and cov' = cov', THEN conjunct2, THEN conjunct2,
      THEN conjunct1, THEN mp, OF r]
  have "let key = (case Some ''A'' of None \<Rightarrow> ''H1''
                   | Some c \<Rightarrow> if c = [] then ''H1'' else ''H1'' @ ''_'' @ c)
        in (\<exists>r. data' key = Some r \<and> record_target_chain r = ''A'') \<and>
           ((\<forall>(s, d)\<in>set [(''A-A'', ''H3_A'')]. header_id spec_codec d \<noteq> Some key) \<longrightarrow>
              data' key =
                Some ((case None of None \<Rightarrow> []
                       | Some d \<Rightarrow> if d = [] then [] else seq_index_split spec_codec d),
                      ''AAA'', ''H1_A'', ''A''))"
    using t3 [THEN conjunct1, rule_format, of "[]" "''AAA''" "''H1_A''" "[(''A-A'', ''H3_A'')]"
        "''H1_A''" "[]" "''H1''" "Some ''A''" None] tok dec
    by simp
  then have d1: "data' ''H1_A'' = Some ([], ''AAA'', ''H1_A'', ''A'')"
    by (simp add: hid Let_def)
  have d2: "data' ''T1_A'' = None"
    using t3 [THEN conjunct2, THEN conjunct1, THEN spec, of "''T1_A''"]
    by (simp add: hid)
  from t3 [THEN conjunct2, THEN conjunct2, rule_format, of "''H2''"] obtain added where
    a1: "coverage cov' ''H2'' = coverage [] ''H2'' @ added"
    and a2: "mset added =
       (\<Sum>(seq, desc)\<leftarrow>?rows.
          case header_id spec_codec desc of
            None \<Rightarrow> {#}
          | Some k \<Rightarrow> image_mset (chain_of spec_codec)
              (filter_mset (\<lambda>x. pid_of spec_codec x = ''H2'')
                 (mset_set (insert k (set (get_default ?md k []))))))"
    by blast
  have s1: "insert ''H1_A'' (set (get_default ?md ''H1_A'' [])) = {''H1_A'', ''H2_B''}"
    "insert ''H3_A'' (set (get_default ?md ''H3_A'' [])) = {''H3_A''}"
    by (simp_all add: get_default_def)
  have m1: "mset_set {''H1_A'', ''H2_B''} = {#''H1_A'', ''H2_B''#}"
    "mset_set {''H3_A''} = {#''H3_A''#}"
    by simp_all
  have "mset added = {#Some ''B''#}"
    unfolding a2 by (simp only: list.map prod.case hid option.case s1 m1) (simp add: of)
  then have "added = [Some ''B'']"
    by simp
  with a1 have "coverage cov' ''H2'' = [Some ''B'']"
    by (simp add: coverage_def get_default_def)
  with r d1 d2 show ?thesis
    by blast
qed

text \<open>
  Claim C8 as stated fails where it says that the hit's chain label is appended for
  every alias. The hit \<open>H1_A\<close> has the alias \<open>H2_B\<close>; after \<open>align_a3m\<close> the entry of
  \<open>H2\<close> holds the alias's label \<open>B\<close>, not the hit's label \<open>A\<close>.
\<close>

theorem align_a3m_alias_label:
  "(case align_a3m spec_codec ([''AAA'', ''AAA''], [''T1_A'', ''H1_A''])
          [''H1_A'' \<mapsto> [''H2_B'']] (Map.empty, []) ''A'' of
      Inl e \<Rightarrow> False
    | Inr (data, cov) \<Rightarrow>
        coverage cov ''H1'' = [Some ''A''] \<and> coverage cov ''H2'' = [Some ''B''] \<and>
        coverage cov ''H2'' \<noteq> [Some ''A''])"
  by code_simp


section \<open>Properties of the completeness filter\<close>












lemma hit_rows_length:
  "hit_rows sh data targets hits = Inr rows \<Longrightarrow> length rows = 2 * length hits"
proof (induction hits arbitrary: rows)
  case Nil
  then show ?case by simp
next
  case (Cons h hits)
  obtain pid labels where h: "h = (pid, labels)"
    by (cases h)
  from Cons.prems obtain rows' where "hit_rows sh data targets hits = Inr rows'"
    and "length rows = 2 + length rows'"
    unfolding h by (auto split: sum.splits)
  with Cons.IH show ?case by simp
qed







text \<open>
  Claim C10. The accumulator gets one label per processed row and per identifier
  credited, duplicates included, and the filter compares the length of that list with
  the required count. (1) In \<open>example_uri_twice\<close> the records of \<open>H1_A\<close> and
  \<open>H1_B\<close> both exist and both required labels are in the entry of \<open>H1\<close>, but the
  hit \<open>H1_A\<close> is a row of both blocks: the entry has three labels, one of them twice,
  and \<open>H1\<close> is excluded. (2) With the alias \<open>H1_B\<close> of \<open>H1_A\<close> the single hit
  \<open>H1_A\<close>, a row of both blocks, credits both labels twice: the entry has four
  labels, every required chain has its record through the alias, and \<open>H1\<close> is
  excluded. (3) In \<open>example_uri_same\<close> the entry of \<open>H1\<close> has the label \<open>A\<close>
  twice and no label \<open>B\<close>; no record of \<open>H1_B\<close> exists; the count is the required
  count, \<open>H1\<close> is retained and \<open>align_complex\<close> emits its row.
\<close>

theorem coverage_count_not_coverage:
  "(case read_a3m_dict spec_codec example_shared example_uri_twice Map.empty ''T1'' [''A'', ''B'']
          ([], (Map.empty, [])) of
      Inl e \<Rightarrow> False
    | Inr (a3m_list, (align_data_dict, a3m_dict)) \<Rightarrow>
        db_chain_idx example_shared ''H1'' = Some [''A'', ''B''] \<and>
        align_data_dict ''H1_A'' \<noteq> None \<and> align_data_dict ''H1_B'' \<noteq> None \<and>
        Some ''A'' \<in> set (coverage a3m_dict ''H1'') \<and> Some ''B'' \<in> set (coverage a3m_dict ''H1'') \<and>
        length (coverage a3m_dict ''H1'') = 3 \<and> \<not> distinct (coverage a3m_dict ''H1'') \<and>
        ''H1'' \<notin> fst ` set (new_a3m_dict example_shared a3m_dict)) \<and>
   (case read_a3m_dict spec_codec example_shared_alias example_uri_same Map.empty ''T1'' [''A'', ''B'']
          ([], (Map.empty, [])) of
      Inl e \<Rightarrow> False
    | Inr (a3m_list, (align_data_dict, a3m_dict)) \<Rightarrow>
        db_chain_idx example_shared_alias ''H1'' = Some [''A'', ''B''] \<and>
        hit_record example_shared_alias align_data_dict ''H1_A'' \<noteq> Inl AssertionError \<and>
        hit_record example_shared_alias align_data_dict ''H1_B'' \<noteq> Inl AssertionError \<and>
        Some ''A'' \<in> set (coverage a3m_dict ''H1'') \<and> Some ''B'' \<in> set (coverage a3m_dict ''H1'') \<and>
        length (coverage a3m_dict ''H1'') = 4 \<and>
        ''H1'' \<notin> fst ` set (new_a3m_dict example_shared_alias a3m_dict)) \<and>
   (case read_a3m_dict spec_codec example_shared example_uri_same Map.empty ''T1'' [''A'', ''B'']
          ([], (Map.empty, [])) of
      Inl e \<Rightarrow> False
    | Inr (a3m_list, (align_data_dict, a3m_dict)) \<Rightarrow>
        db_chain_idx example_shared ''H1'' = Some [''A'', ''B''] \<and>
        coverage a3m_dict ''H1'' = [Some ''A'', Some ''A''] \<and>
        align_data_dict ''H1_B'' = None \<and>
        ''H1'' \<in> fst ` set (new_a3m_dict example_shared a3m_dict)) \<and>
   (case align_complex spec_codec example_shared example_uri_twice Map.empty (''T1'', [''A'', ''B'']) of
      Inl e \<Rightarrow> False
    | Inr (item, rows, a3m_dict) \<Rightarrow> drop 1 rows = [''AAAAABBBB'']) \<and>
   (case align_complex spec_codec example_shared example_uri_same Map.empty (''T1'', [''A'', ''B'']) of
      Inl e \<Rightarrow> False
    | Inr (item, rows, a3m_dict) \<Rightarrow>
        drop 1 rows = [''AAAAABBBB'', ''>H1 chains:A,A {}'', ''*****BB**''])"
proof (intro conjI)
  show "(case read_a3m_dict spec_codec example_shared example_uri_twice Map.empty ''T1'' [''A'', ''B'']
          ([], (Map.empty, [])) of
      Inl e \<Rightarrow> False
    | Inr (a3m_list, (align_data_dict, a3m_dict)) \<Rightarrow>
        db_chain_idx example_shared ''H1'' = Some [''A'', ''B''] \<and>
        align_data_dict ''H1_A'' \<noteq> None \<and> align_data_dict ''H1_B'' \<noteq> None \<and>
        Some ''A'' \<in> set (coverage a3m_dict ''H1'') \<and> Some ''B'' \<in> set (coverage a3m_dict ''H1'') \<and>
        length (coverage a3m_dict ''H1'') = 3 \<and> \<not> distinct (coverage a3m_dict ''H1'') \<and>
        ''H1'' \<notin> fst ` set (new_a3m_dict example_shared a3m_dict))"
    by code_simp
  show "(case read_a3m_dict spec_codec example_shared_alias example_uri_same Map.empty ''T1'' [''A'', ''B'']
          ([], (Map.empty, [])) of
      Inl e \<Rightarrow> False
    | Inr (a3m_list, (align_data_dict, a3m_dict)) \<Rightarrow>
        db_chain_idx example_shared_alias ''H1'' = Some [''A'', ''B''] \<and>
        hit_record example_shared_alias align_data_dict ''H1_A'' \<noteq> Inl AssertionError \<and>
        hit_record example_shared_alias align_data_dict ''H1_B'' \<noteq> Inl AssertionError \<and>
        Some ''A'' \<in> set (coverage a3m_dict ''H1'') \<and> Some ''B'' \<in> set (coverage a3m_dict ''H1'') \<and>
        length (coverage a3m_dict ''H1'') = 4 \<and>
        ''H1'' \<notin> fst ` set (new_a3m_dict example_shared_alias a3m_dict))"
    by code_simp
  show "(case read_a3m_dict spec_codec example_shared example_uri_same Map.empty ''T1'' [''A'', ''B'']
          ([], (Map.empty, [])) of
      Inl e \<Rightarrow> False
    | Inr (a3m_list, (align_data_dict, a3m_dict)) \<Rightarrow>
        db_chain_idx example_shared ''H1'' = Some [''A'', ''B''] \<and>
        coverage a3m_dict ''H1'' = [Some ''A'', Some ''A''] \<and>
        align_data_dict ''H1_B'' = None \<and>
        ''H1'' \<in> fst ` set (new_a3m_dict example_shared a3m_dict))"
    by code_simp
  show "(case align_complex spec_codec example_shared example_uri_twice Map.empty (''T1'', [''A'', ''B'']) of
      Inl e \<Rightarrow> False
    | Inr (item, rows, a3m_dict) \<Rightarrow> drop 1 rows = [''AAAAABBBB''])"
    by code_simp
  show "(case align_complex spec_codec example_shared example_uri_same Map.empty (''T1'', [''A'', ''B'']) of
      Inl e \<Rightarrow> False
    | Inr (item, rows, a3m_dict) \<Rightarrow>
        drop 1 rows = [''AAAAABBBB'', ''>H1 chains:A,A {}'', ''*****BB**''])"
    by code_simp
qed


section \<open>Properties of the target row\<close>

lemma seq_at_i_query: "seq_at_i a3m_data 0 = Inr (seq, desc) \<Longrightarrow> query_seq a3m_data = seq"
  by (cases a3m_data; cases "fst a3m_data")
    (auto simp: seq_at_i_def query_seq_def split: if_splits)

lemma add_target_result:
  "add_target targets ts ds n = Inr (ts', ds') \<Longrightarrow>
   ts' = ts @ concat (map (query_seq \<circ> snd) targets) \<and>
   length ds' = length ds + length targets \<and>
   take (length ds) ds' = ds \<and>
   (\<forall>k<length targets.
      ds' ! (length ds + k) =
        (n + (\<Sum>a\<leftarrow>take k targets. int (length (query_seq (snd a)))) + 100 * int k,
         n + (\<Sum>a\<leftarrow>take (Suc k) targets. int (length (query_seq (snd a)))) + 100 * int k - 1))"
proof (induction targets arbitrary: ts ds n)
  case Nil
  then show ?case by simp
next
  case (Cons t targets)
  obtain chain a3m where t: "t = (chain, a3m)"
    by (cases t)
  from Cons.prems obtain seq desc where q: "seq_at_i a3m 0 = Inr (seq, desc)"
    and rest: "add_target targets (ts @ seq) (ds @ [(n, n + int (length seq) - 1)])
                 (n + int (length seq) + 100) = Inr (ts', ds')"
    unfolding t by (auto split: sum.splits)
  have qs: "query_seq a3m = seq"
    using seq_at_i_query [OF q] .
  note ih = Cons.IH [OF rest]
  from ih have len: "length ds' = length ds + length (t # targets)"
    by simp
  from ih have tk: "take (Suc (length ds)) ds' = ds @ [(n, n + int (length seq) - 1)]"
    by simp
  have "take (length ds) ds' = take (length ds) (take (Suc (length ds)) ds')"
    by simp
  then have tk0: "take (length ds) ds' = ds"
    by (simp only: tk) simp
  have nth0: "ds' ! length ds = (n, n + int (length seq) - 1)"
    using tk by (metis lessI nth_append_length nth_take)
  have nth: "ds' ! (length ds + k) =
        (n + (\<Sum>a\<leftarrow>take k (t # targets). int (length (query_seq (snd a)))) + 100 * int k,
         n + (\<Sum>a\<leftarrow>take (Suc k) (t # targets). int (length (query_seq (snd a)))) + 100 * int k - 1)"
    if k: "k < length (t # targets)" for k
  proof (cases k)
    case 0
    then show ?thesis
      using nth0 by (simp add: t qs)
  next
    case (Suc k')
    with k have "k' < length targets"
      by simp
    with ih have "ds' ! (length (ds @ [(n, n + int (length seq) - 1)]) + k') =
        (n + int (length seq) + 100 + (\<Sum>a\<leftarrow>take k' targets. int (length (query_seq (snd a)))) + 100 * int k',
         n + int (length seq) + 100 + (\<Sum>a\<leftarrow>take (Suc k') targets. int (length (query_seq (snd a)))) + 100 * int k' - 1)"
      by blast
    then show ?thesis
      by (simp add: Suc t qs algebra_simps)
  qed
  from ih have "ts' = ts @ concat (map (query_seq \<circ> snd) (t # targets))"
    by (simp add: t qs comp_def)
  with len tk0 nth show ?case
    by blast
qed

lemma read_a3m_dict_list:
  "read_a3m_dict cd sh uri tmi tp cs (l, d) = Inr (l', d') \<Longrightarrow>
   \<exists>new. l' = l @ new \<and> map (\<lambda>c. read_a3m uri tmi (compose_id tp (Some c))) cs = map Inr new"
proof (induction cs arbitrary: l d)
  case Nil
  then show ?case by simp
next
  case (Cons c cs)
  from Cons.prems obtain a3m d1 where a: "read_a3m uri tmi (compose_id tp (Some c)) = Inr a3m"
    and rest: "read_a3m_dict cd sh uri tmi tp cs (l @ [a3m], d1) = Inr (l', d')"
    by (cases d) (auto split: sum.splits)
  from Cons.IH [OF rest] obtain new where "l' = (l @ [a3m]) @ new"
    and "map (\<lambda>c. read_a3m uri tmi (compose_id tp (Some c))) cs = map Inr new"
    by blast
  with a have "l' = l @ (a3m # new) \<and>
      map (\<lambda>c. read_a3m uri tmi (compose_id tp (Some c))) (c # cs) = map Inr (a3m # new)"
    by simp
  then show ?case
    by blast
qed

text \<open>
  Claim C2 (as amended). When \<open>align_complex\<close> returns, every chain's block was read
  (\<open>a3m_list\<close>, in chain order), and the target sequence it emits (row 1, after the
  header in row 0) is the concatenation of the chains' queries with nothing between
  them: its length is the sum of the per-chain query lengths. The padding of 100
  positions is in the domain spans of the header only: the span of chain \<open>k\<close>
  (counted from 0) starts at 1 plus the lengths of the queries before it plus
  \<open>100 \<times> k\<close> and ends at the lengths of the queries up to it plus \<open>100 \<times> k\<close>, so
  the last span ends at the sum of all query lengths plus \<open>100 \<times> (chains - 1)\<close>.
\<close>

theorem target_row_concatenates_queries:
  assumes "align_complex cd shared target_uri target_mapping_idx (target_pid, target_chain_list) =
             Inr (item, rows, acc)"
  shows "\<exists>a3m_list domains.
           map (\<lambda>chain. read_a3m target_uri target_mapping_idx (compose_id target_pid (Some chain)))
             target_chain_list = map Inr a3m_list \<and>
           rows ! 0 = ''>'' @ target_pid @ '' domains:'' @ seq_index_join cd domains \<and>
           rows ! 1 = concat (map query_seq a3m_list) \<and>
           length (rows ! 1) = sum_list (map (length \<circ> query_seq) a3m_list) \<and>
           length domains = length target_chain_list \<and>
           (\<forall>k<length target_chain_list.
              domains ! k =
                (1 + (\<Sum>a\<leftarrow>take k a3m_list. int (length (query_seq a))) + 100 * int k,
                 (\<Sum>a\<leftarrow>take (Suc k) a3m_list. int (length (query_seq a))) + 100 * int k))"
proof -
  from assms obtain a3m_list data cov target_seq domains hits where
    r: "read_a3m_dict cd shared target_uri target_mapping_idx target_pid target_chain_list
          ([], (Map.empty, [])) = Inr (a3m_list, (data, cov))"
    and t: "add_target (zip target_chain_list a3m_list) [] [] 1 = Inr (target_seq, domains)"
    and rows: "rows = (''>'' @ target_pid @ '' domains:'' @ seq_index_join cd domains) # target_seq # hits"
    by (auto simp: align_complex_def Let_def split: sum.splits prod.splits)
  from read_a3m_dict_list [OF r] have
    m: "map (\<lambda>chain. read_a3m target_uri target_mapping_idx (compose_id target_pid (Some chain)))
          target_chain_list = map Inr a3m_list"
    by simp
  then have len: "length a3m_list = length target_chain_list"
    by (metis length_map)
  have z: "map snd (zip target_chain_list a3m_list) = a3m_list"
    using len by simp
  have zt: "map snd (take k (zip target_chain_list a3m_list)) = take k a3m_list" for k
    using z by (metis take_map)
  have sums: "(\<Sum>a\<leftarrow>take k (zip target_chain_list a3m_list). int (length (query_seq (snd a)))) =
              (\<Sum>a\<leftarrow>take k a3m_list. int (length (query_seq a)))" for k
  proof -
    have "map (\<lambda>a. int (length (query_seq (snd a)))) (take k (zip target_chain_list a3m_list)) =
          map (\<lambda>a. int (length (query_seq a))) (map snd (take k (zip target_chain_list a3m_list)))"
      by simp
    then show ?thesis
      by (simp only: zt)
  qed
  note res = add_target_result [OF t]
  from res have ts: "target_seq = concat (map query_seq a3m_list)"
    using z by (metis append_Nil map_map)
  from res have dl: "length domains = length target_chain_list"
    using len by simp
  have dk: "domains ! k =
      (1 + (\<Sum>a\<leftarrow>take k a3m_list. int (length (query_seq a))) + 100 * int k,
       (\<Sum>a\<leftarrow>take (Suc k) a3m_list. int (length (query_seq a))) + 100 * int k)"
    if "k < length target_chain_list" for k
  proof -
    from that len have "k < length (zip target_chain_list a3m_list)"
      by simp
    with res have "domains ! (length ([] :: (int \<times> int) list) + k) =
        (1 + (\<Sum>a\<leftarrow>take k (zip target_chain_list a3m_list). int (length (query_seq (snd a)))) + 100 * int k,
         1 + (\<Sum>a\<leftarrow>take (Suc k) (zip target_chain_list a3m_list). int (length (query_seq (snd a)))) + 100 * int k - 1)"
      by blast
    then show ?thesis
      by (simp only: sums) simp
  qed
  have "length (rows ! 1) = sum_list (map (length \<circ> query_seq) a3m_list)"
    by (simp add: rows ts length_concat)
  with m rows ts dl dk show ?thesis
    by (intro exI [of _ a3m_list] exI [of _ domains]) simp
qed

theorem target_row_concatenates_queries_witness:
  "\<exists>item rows acc a3m_list domains.
     align_complex spec_codec example_shared example_uri Map.empty (''T1'', [''A'', ''B'']) =
       Inr (item, rows, acc) \<and>
     a3m_list = [([''AAAAA'', ''-AAA-'', ''AA---''], [''T1_A'', ''H1_A/2-4'', ''H0_A'']),
                 ([''BBBB'', ''BB--''], [''T1_B'', ''H1_B''])] \<and>
     rows ! 0 = ''>'' @ ''T1'' @ '' domains:'' @ seq_index_join spec_codec domains \<and>
     rows ! 1 = ''AAAAABBBB'' \<and>
     length (rows ! 1) = sum_list (map (length \<circ> query_seq) a3m_list) \<and>
     domains ! 0 = (1, 5) \<and> domains ! 1 = (106, 109)"
proof -
  let ?l = "[([''AAAAA'', ''-AAA-'', ''AA---''], [''T1_A'', ''H1_A/2-4'', ''H0_A'']),
             ([''BBBB'', ''BB--''], [''T1_B'', ''H1_B''])] :: a3m_data list"
  have "(case align_complex spec_codec example_shared example_uri Map.empty (''T1'', [''A'', ''B'']) of
          Inl e \<Rightarrow> None
        | Inr (item, rows, acc) \<Rightarrow> Some (rows ! 1)) = Some ''AAAAABBBB''"
    by code_simp
  then obtain item rows acc where
    r: "align_complex spec_codec example_shared example_uri Map.empty (''T1'', [''A'', ''B'']) =
          Inr (item, rows, acc)"
    and r1: "rows ! 1 = ''AAAAABBBB''"
    by (auto split: sum.splits)
  from target_row_concatenates_queries [OF r] obtain a3m_list domains where
    m: "map (\<lambda>chain. read_a3m example_uri Map.empty (compose_id ''T1'' (Some chain))) [''A'', ''B''] =
       map Inr a3m_list"
    and r0: "rows ! 0 = ''>'' @ ''T1'' @ '' domains:'' @ seq_index_join spec_codec domains"
    and len: "length (rows ! 1) = sum_list (map (length \<circ> query_seq) a3m_list)"
    and d: "\<forall>k<length [''A'', ''B''].
              domains ! k =
                (1 + (\<Sum>a\<leftarrow>take k a3m_list. int (length (query_seq a))) + 100 * int k,
                 (\<Sum>a\<leftarrow>take (Suc k) a3m_list. int (length (query_seq a))) + 100 * int k)"
    by blast
  have "map (\<lambda>chain. read_a3m example_uri Map.empty (compose_id ''T1'' (Some chain))) [''A'', ''B''] =
        map Inr ?l"
    by (simp add: read_a3m_def get_default_def compose_id_def example_uri_def)
  with m have l: "a3m_list = ?l"
    by (metis inj_Inr inj_map_eq_map)
  from d have "domains ! 0 = (1, 5)" "domains ! 1 = (106, 109)"
    unfolding l by (simp_all add: query_seq_def)
  with r r0 r1 len l show ?thesis
    by blast
qed

text \<open>
  Claim C2 as stated fails: for the target \<open>T1\<close> with the queries \<open>AAAAA\<close> and
  \<open>BBBB\<close> the emitted target sequence is \<open>AAAAABBBB\<close>, of length 9, not
  \<open>5 + 4 + 100 \<times> (2 - 1)\<close>.
\<close>

theorem target_row_has_no_padding:
  "(case align_complex spec_codec example_shared example_uri Map.empty (''T1'', [''A'', ''B'']) of
      Inl e \<Rightarrow> False
    | Inr (item, rows, acc) \<Rightarrow>
        rows ! 1 = ''AAAAABBBB'' \<and> length (rows ! 1) = 9 \<and>
        length (rows ! 1) \<noteq> 5 + 4 + 100 * (2 - 1))"
  by code_simp


section \<open>Properties of a hit's row\<close>

lemma hit_seq_at_i_untagged:
  "hit_seq_at_i sh data pid tc placeholder labels = Inr s \<Longrightarrow>
   (\<forall>chain\<in>set labels. \<forall>r. hit_record sh data (compose_id pid chain) = Inr r \<longrightarrow>
      record_target_chain r \<noteq> tc) \<Longrightarrow>
   s = placeholder"
proof (induction labels)
  case Nil
  then show ?case by simp
next
  case (Cons c labels)
  from Cons.prems(1) obtain r where r: "hit_record sh data (compose_id pid c) = Inr r"
    by (auto split: sum.splits)
  have "c \<in> set (c # labels)"
    by simp
  with Cons.prems(2) r have tag: "record_target_chain r \<noteq> tc"
    by blast
  obtain domains hit_seq desc attrs where rr: "r = (domains, hit_seq, desc, attrs)"
    by (cases r)
  from Cons.prems(1) r tag have "hit_seq_at_i sh data pid tc placeholder labels = Inr s"
    by (simp add: rr)
  moreover from Cons.prems(2) have
    "\<forall>chain\<in>set labels. \<forall>r. hit_record sh data (compose_id pid chain) = Inr r \<longrightarrow>
       record_target_chain r \<noteq> tc"
    by simp
  ultimately show ?case
    by (rule Cons.IH)
qed

lemma new_hit_seq_append:
  "new_hit_seq sh data pid labels (before @ after) =
   (case new_hit_seq sh data pid labels before of
      Inl e \<Rightarrow> Inl e
    | Inr a \<Rightarrow>
        (case new_hit_seq sh data pid labels after of
           Inl e \<Rightarrow> Inl e
         | Inr b \<Rightarrow> Inr (a @ b)))"
proof (induction before)
  case Nil
  then show ?case by (simp split: sum.splits)
next
  case (Cons t before)
  obtain tc a3m where t: "t = (tc, a3m)"
    by (cases t)
  show ?case
    unfolding t using Cons.IH by (simp split: sum.splits prod.splits)
qed

text \<open>
  Claim C7 (as amended). In the assembly of a retained hit's row, take the target chain
  at any position of the chain list (\<open>before\<close> and \<open>after\<close> are the positions
  around it). If the row is built (no assertion fails) and none of the records found
  for the hit's labels is tagged with that target chain, then the chain's contribution
  to the row is the placeholder that line 270 sets: the mask character \<open>*\<close> (the
  character that the gap normalization writes, not the gap character \<open>-\<close>) repeated
  over the length of that target chain's query; the row is the contributions of the
  chains before it, that placeholder, and the contributions of the chains after it.
\<close>

theorem untagged_chain_contributes_mask:
  assumes "new_hit_seq shared align_data_dict pid chain_list
             (before @ (target_chain, a3m_data) # after) = Inr row"
    and "\<forall>chain\<in>set chain_list. \<forall>r.
           hit_record shared align_data_dict (compose_id pid chain) = Inr r \<longrightarrow>
           record_target_chain r \<noteq> target_chain"
  shows "\<exists>a b. new_hit_seq shared align_data_dict pid chain_list before = Inr a \<and>
               new_hit_seq shared align_data_dict pid chain_list after = Inr b \<and>
               row = a @ replicate (length (query_seq a3m_data)) CHR ''*'' @ b"
proof -
  from assms(1) obtain a rest where
    a: "new_hit_seq shared align_data_dict pid chain_list before = Inr a"
    and rest: "new_hit_seq shared align_data_dict pid chain_list ((target_chain, a3m_data) # after) =
                 Inr rest"
    and row: "row = a @ rest"
    by (auto simp: new_hit_seq_append split: sum.splits)
  from rest obtain seq desc contribution b where
    q: "seq_at_i a3m_data 0 = Inr (seq, desc)"
    and c: "hit_seq_at_i shared align_data_dict pid target_chain
              (replicate (length seq) CHR ''*'') chain_list = Inr contribution"
    and b: "new_hit_seq shared align_data_dict pid chain_list after = Inr b"
    and r: "rest = contribution @ b"
    by (auto split: sum.splits)
  from hit_seq_at_i_untagged [OF c assms(2)] seq_at_i_query [OF q]
  have "contribution = replicate (length (query_seq a3m_data)) CHR ''*''"
    by simp
  with a b row r show ?thesis
    by simp
qed

theorem untagged_chain_contributes_mask_witness:
  "new_hit_seq example_shared_single [''H2_A'' \<mapsto> ([], ''-AAA-'', ''H2_A'', ''A'')] ''H2'' [Some ''A'']
     [(''A'', ([''AAAAA'', ''-AAA-''], [''T2_A'', ''H2_A''])), (''B'', ([''BBB''], [''T2_B'']))] =
     Inr ''*AAA****'' \<and>
   (\<exists>a b. new_hit_seq example_shared_single [''H2_A'' \<mapsto> ([], ''-AAA-'', ''H2_A'', ''A'')] ''H2''
             [Some ''A''] [(''A'', ([''AAAAA'', ''-AAA-''], [''T2_A'', ''H2_A'']))] = Inr a \<and>
          ''*AAA****'' = a @ replicate (length (query_seq ([''BBB''], [''T2_B'']))) CHR ''*'' @ b)"
proof -
  let ?data = "[''H2_A'' \<mapsto> ([], ''-AAA-'', ''H2_A'', ''A'')] :: align_data_dict"
  let ?ta = "(''A'', ([''AAAAA'', ''-AAA-''], [''T2_A'', ''H2_A'']))"
  let ?b3 = "([''BBB''], [''T2_B''])"
  have row: "new_hit_seq example_shared_single ?data ''H2'' [Some ''A''] ([?ta] @ (''B'', ?b3) # []) =
        Inr ''*AAA****''"
    by code_simp
  have rec: "hit_record example_shared_single ?data (compose_id ''H2'' (Some ''A'')) =
        Inr ([], ''-AAA-'', ''H2_A'', ''A'')"
    by (simp add: hit_record_def compose_id_def example_shared_single_def)
  have untagged: "\<forall>chain\<in>set [Some ''A'']. \<forall>r.
        hit_record example_shared_single ?data (compose_id ''H2'' chain) = Inr r \<longrightarrow>
        record_target_chain r \<noteq> ''B''"
    by (simp add: rec record_target_chain_def)
  from untagged_chain_contributes_mask [OF row untagged] row show ?thesis
    by auto
qed

text \<open>
  Claim C7 as stated fails on the placeholder's character. The hit \<open>H2\<close> has no record
  tagged with the target chain \<open>B\<close>, whose query \<open>BBB\<close> has length 3: the last
  three characters of the hit's row are \<open>***\<close>, not the gaps \<open>---\<close>.
\<close>

theorem untagged_chain_is_not_gaps:
  "(case align_complex spec_codec example_shared_single example_uri_single Map.empty
          (''T2'', [''A'', ''B'']) of
      Inl e \<Rightarrow> False
    | Inr (item, rows, acc) \<Rightarrow>
        length rows = 4 \<and> rows ! 1 = ''AAAAABBB'' \<and> rows ! 3 = ''*AAA****'' \<and>
        drop 5 (rows ! 3) = replicate 3 CHR ''*'' \<and>
        drop 5 (rows ! 3) \<noteq> replicate 3 CHR ''-'')"
  by code_simp


end
